theory Spec2Isabelle
  imports Complex_Main "HOL-Library.Word"
begin

section \<open>Machine types\<close>

text \<open>
  The target is a 32-bit ARM Cortex-M3 (board mps2/an385): \<open>size_t\<close>, \<open>uint32_t\<close> and
  \<open>int32_t\<close> are 32-bit words, \<open>int16_t\<close> samples are 16-bit words and the quantized
  \<open>int8_t\<close> values are 8-bit words. Unsigned arithmetic wraps; signed values are read
  with \<open>sint\<close>. The C type \<open>int\<close> of return codes is modelled by \<open>int\<close>.
\<close>

type_synonym size_t = "32 word"
type_synonym uint32_t = "32 word"
type_synonym int32_t = "32 word"
type_synonym uint64_t = "64 word"
type_synonym int16_t = "16 word"
type_synonym int8_t = "8 word"

definition EAGAIN :: int where "EAGAIN = 11"
definition EINVAL :: int where "EINVAL = 22"
definition ENOSPC :: int where "ENOSPC = 28"

subsection \<open>Single-precision floats\<close>

text \<open>
  A C \<open>float\<close> is represented by the rational number it denotes. Every arithmetic
  operation computes the exact result and rounds it to the nearest binary32 value, ties
  to even (\<open>f32\<close>): 24 significant bits, gradual underflow below \<open>2^-126\<close>. Each
  operation rounds on its own (the Cortex-M3 has no fused multiply-add). Infinities
  and NaN are not represented; the magnitudes in this program stay far below \<open>2^128\<close>.
\<close>

type_synonym float = rat

definition pow2 :: "int \<Rightarrow> rat" where
  "pow2 k = (if 0 \<le> k then 2 ^ nat k else 1 / 2 ^ nat (- k))"

function bit_length :: "int \<Rightarrow> int" where
  "bit_length n = (if n \<le> 0 then 0 else 1 + bit_length (n div 2))"
  by pat_completeness auto
termination
  by (relation "measure nat") auto

declare bit_length.simps [simp del]

text \<open>\<open>ilog2 a\<close> is the exponent \<open>e\<close> with \<open>2^e \<le> a < 2^(e+1)\<close>, for \<open>a > 0\<close>.\<close>

definition ilog2 :: "rat \<Rightarrow> int" where
  "ilog2 a = (if 1 \<le> a then bit_length \<lfloor>a\<rfloor> - 1
              else - bit_length (\<lceil>1 / a\<rceil> - 1))"

definition round_half_even :: "rat \<Rightarrow> int" where
  "round_half_even s =
     (let n = \<lfloor>s\<rfloor>; r = s - of_int n
      in if r < 1 / 2 then n
         else if 1 / 2 < r then n + 1
         else if even n then n else n + 1)"

definition f32 :: "rat \<Rightarrow> float" where
  "f32 v =
     (if v = 0 then 0
      else
        let a = \<bar>v\<bar>;
            q = max (ilog2 a - 23) (- 149);
            n = round_half_even (a / pow2 q)
        in sgn v * of_int n * pow2 q)"

definition fadd :: "float \<Rightarrow> float \<Rightarrow> float" where
  "fadd a b = f32 (a + b)"

definition fsub :: "float \<Rightarrow> float \<Rightarrow> float" where
  "fsub a b = f32 (a - b)"

definition fmul :: "float \<Rightarrow> float \<Rightarrow> float" where
  "fmul a b = f32 (a * b)"

definition fdiv :: "float \<Rightarrow> float \<Rightarrow> float" where
  "fdiv a b = f32 (a / b)"

text \<open>
  The cast \<open>(int32_t)v\<close> of a float truncates towards zero. (C leaves the cast
  undefined when the truncated value does not fit; the model wraps there.)
\<close>

definition float_to_int32 :: "float \<Rightarrow> int32_t" where
  "float_to_int32 v = word_of_int (if 0 \<le> v then \<lfloor>v\<rfloor> else \<lceil>v\<rceil>)"

section \<open>Timing facility (src/debug/timing.c)\<close>

text \<open>The module state: the two file-scope statics of timing.c.\<close>

record timing_state =
  cycles_per_us :: uint32_t
  timing_initialized :: bool

definition timing_state0 :: timing_state where
  "timing_state0 = \<lparr>cycles_per_us = 0, timing_initialized = False\<rparr>"

definition UINT32_MAX :: uint32_t where
  "UINT32_MAX = 0xFFFFFFFF"

text \<open>
  \<open>profile_timing_init\<close>: the argument \<open>freq\<close> is what \<open>sys_clock_hw_cycles_per_sec()\<close>
  returns.
\<close>

definition profile_timing_init :: "uint32_t \<Rightarrow> timing_state \<Rightarrow> timing_state" where
  "profile_timing_init freq st =
     (if timing_initialized st then st
      else
        let c = freq div 1000000;
            c' = (if c = 0 then 1 else c)
        in st\<lparr>cycles_per_us := c', timing_initialized := True\<rparr>)"

text \<open>
  The local \<open>elapsed_cycles\<close> of \<open>profile_timing_end\<close>, with both branches of the
  wrap-around test as in the source. \<open>end_cycles\<close> is the value read from
  \<open>k_cycle_get_32()\<close>.
\<close>

definition elapsed_cycles :: "uint32_t \<Rightarrow> uint32_t \<Rightarrow> uint32_t" where
  "elapsed_cycles end_cycles start_cycles =
     (if end_cycles \<ge> start_cycles then end_cycles - start_cycles
      else (UINT32_MAX - start_cycles) + end_cycles + 1)"

definition profile_timing_end :: "timing_state \<Rightarrow> uint32_t \<Rightarrow> uint32_t \<Rightarrow> uint32_t" where
  "profile_timing_end st end_cycles start_cycles =
     (let e = elapsed_cycles end_cycles start_cycles
      in if cycles_per_us st > 0 then e div cycles_per_us st else e)"

section \<open>Computation results (src/ml/inference.h)\<close>

datatype gesture_label = GESTURE_IDLE | GESTURE_WAVE | GESTURE_TAP | GESTURE_CIRCLE

record inference_result =
  gesture :: gesture_label
  confidence :: float
  class_scores :: "float list"
  inference_time_us :: uint32_t
  timestamp_us :: uint32_t
  sequence :: uint32_t

text \<open>The all-zero object that \<open>memset\<close> leaves in a slot.\<close>

definition zero_result :: inference_result where
  "zero_result =
     \<lparr>gesture = GESTURE_IDLE, confidence = 0, class_scores = [0, 0, 0, 0],
      inference_time_us = 0, timestamp_us = 0, sequence = 0\<rparr>"

section \<open>Result queue (src/output/ring_buffer.c)\<close>

definition CONFIG_OUTPUT_RING_BUFFER_SIZE :: size_t where
  "CONFIG_OUTPUT_RING_BUFFER_SIZE = 16"

text \<open>
  The statics of ring_buffer.c. The array \<open>buffer\<close> is a list; a store
  \<open>buffer[head] = v\<close> is a list update. (An index beyond the array is undefined in C
  and a no-op on the list; the operations keep \<open>head\<close> and \<open>tail\<close> below the capacity.)
  The mutex only serialises callers and is not part of the data.
\<close>

record ring_buffer =
  buffer :: "inference_result list"
  head :: size_t
  tail :: size_t
  count :: size_t

definition result_buffer_init :: "ring_buffer \<Rightarrow> ring_buffer" where
  "result_buffer_init rb =
     \<lparr>buffer = replicate (unat CONFIG_OUTPUT_RING_BUFFER_SIZE) zero_result,
      head = 0, tail = 0, count = 0\<rparr>"

text \<open>
  The pointer argument is an option: \<open>None\<close> is \<open>NULL\<close>. The result is the return code
  and the new state.
\<close>

definition result_buffer_push ::
  "inference_result option \<Rightarrow> ring_buffer \<Rightarrow> int \<times> ring_buffer" where
  "result_buffer_push result rb =
     (case result of
        None \<Rightarrow> (- EINVAL, rb)
      | Some r \<Rightarrow>
          let rb1 =
                (if count rb \<ge> CONFIG_OUTPUT_RING_BUFFER_SIZE
                 then rb\<lparr>tail := (tail rb + 1) mod CONFIG_OUTPUT_RING_BUFFER_SIZE,
                          count := count rb - 1\<rparr>
                 else rb);
              rb2 = rb1\<lparr>buffer := (buffer rb1)[unat (head rb1) := r]\<rparr>;
              rb3 = rb2\<lparr>head := (head rb2 + 1) mod CONFIG_OUTPUT_RING_BUFFER_SIZE\<rparr>
          in (0, rb3\<lparr>count := count rb3 + 1\<rparr>))"

text \<open>
  \<open>result_buffer_pop\<close>: the argument is the caller's object (\<open>None\<close> for a \<open>NULL\<close>
  pointer); the second component of the result is that object after the call.
\<close>

definition result_buffer_pop ::
  "inference_result option \<Rightarrow> ring_buffer \<Rightarrow> int \<times> inference_result option \<times> ring_buffer" where
  "result_buffer_pop result rb =
     (case result of
        None \<Rightarrow> (- EINVAL, None, rb)
      | Some old \<Rightarrow>
          if count rb = 0 then (- EAGAIN, Some old, rb)
          else
            (0, Some (buffer rb ! unat (tail rb)),
             rb\<lparr>tail := (tail rb + 1) mod CONFIG_OUTPUT_RING_BUFFER_SIZE,
                 count := count rb - 1\<rparr>))"

definition result_buffer_empty :: "ring_buffer \<Rightarrow> bool" where
  "result_buffer_empty rb = (count rb = 0)"

definition result_buffer_full :: "ring_buffer \<Rightarrow> bool" where
  "result_buffer_full rb = (count rb \<ge> CONFIG_OUTPUT_RING_BUFFER_SIZE)"

definition result_buffer_count :: "ring_buffer \<Rightarrow> size_t" where
  "result_buffer_count rb = count rb"

text \<open>Pushing a sequence of results, and draining the queue with at most \<open>n\<close> pops.\<close>

fun push_all :: "inference_result list \<Rightarrow> ring_buffer \<Rightarrow> ring_buffer" where
  "push_all [] rb = rb"
| "push_all (r # rs) rb = push_all rs (snd (result_buffer_push (Some r) rb))"

fun pop_n :: "nat \<Rightarrow> ring_buffer \<Rightarrow> inference_result list \<times> ring_buffer" where
  "pop_n 0 rb = ([], rb)"
| "pop_n (Suc n) rb =
     (case result_buffer_pop (Some zero_result) rb of
        (ret, Some r, rb') \<Rightarrow>
          if ret = 0 then (let (rs, rb'') = pop_n n rb' in (r # rs, rb'')) else ([], rb)
      | (ret, None, rb') \<Rightarrow> ([], rb))"

text \<open>
  The invariant of the indices, and the queue's logical contents: the \<open>count\<close> slots
  from \<open>tail\<close> on, oldest first.
\<close>

definition ring_inv :: "ring_buffer \<Rightarrow> bool" where
  "ring_inv rb =
     (unat (count rb) \<le> unat CONFIG_OUTPUT_RING_BUFFER_SIZE \<and>
      unat (head rb) =
        (unat (tail rb) + unat (count rb)) mod unat CONFIG_OUTPUT_RING_BUFFER_SIZE)"

definition ring_wf :: "ring_buffer \<Rightarrow> bool" where
  "ring_wf rb =
     (length (buffer rb) = unat CONFIG_OUTPUT_RING_BUFFER_SIZE \<and>
      tail rb < CONFIG_OUTPUT_RING_BUFFER_SIZE \<and> ring_inv rb)"

definition contents :: "ring_buffer \<Rightarrow> inference_result list" where
  "contents rb =
     map (\<lambda>i. buffer rb ! ((unat (tail rb) + i) mod unat CONFIG_OUTPUT_RING_BUFFER_SIZE))
       [0..<unat (count rb)]"

definition result_numbered :: "nat \<Rightarrow> inference_result" where
  "result_numbered n = zero_result\<lparr>sequence := of_nat n\<rparr>"

section \<open>Windowed preprocessor (src/ml/preprocessing.c)\<close>

text \<open>\<open>struct accel_sample\<close> of sensor_hal.h.\<close>

record accel_sample =
  sample_x :: int16_t
  sample_y :: int16_t
  sample_z :: int16_t
  sample_timestamp_us :: uint32_t

definition zero_sample :: accel_sample where
  "zero_sample = \<lparr>sample_x = 0, sample_y = 0, sample_z = 0, sample_timestamp_us = 0\<rparr>"

definition ML_INPUT_AXES :: size_t where
  "ML_INPUT_AXES = 3"

definition CONFIG_ML_INFERENCE_WINDOW_SIZE :: size_t where
  "CONFIG_ML_INFERENCE_WINDOW_SIZE = 50"

definition ML_INPUT_SIZE :: size_t where
  "ML_INPUT_SIZE = ML_INPUT_AXES * CONFIG_ML_INFERENCE_WINDOW_SIZE"

definition QUANT_SCALE :: float where
  "QUANT_SCALE = fdiv 127 16384"

definition DC_FILTER_ALPHA :: float where
  "DC_FILTER_ALPHA = f32 (95 / 100)"

text \<open>
  The statics of preprocessing.c: one window array, the write position, the ready
  flag, the three DC-offset estimates and the initialisation flag.
\<close>

record preprocessing_state =
  sample_window :: "accel_sample list"
  window_pos :: size_t
  window_ready :: bool
  dc_offset :: "float list"
  initialized :: bool

definition preprocessing_state0 :: preprocessing_state where
  "preprocessing_state0 =
     \<lparr>sample_window = replicate (unat CONFIG_ML_INFERENCE_WINDOW_SIZE) zero_sample,
      window_pos = 0, window_ready = False, dc_offset = [0, 0, 8192],
      initialized = False\<rparr>"

definition preprocessing_init :: "preprocessing_state \<Rightarrow> preprocessing_state" where
  "preprocessing_init st =
     st\<lparr>window_pos := 0, window_ready := False, dc_offset := [0, 0, 8192],
        sample_window := replicate (unat CONFIG_ML_INFERENCE_WINDOW_SIZE) zero_sample,
        initialized := True\<rparr>"

text \<open>The conversion \<open>(float)sample->x\<close>: every 16-bit integer is a binary32 value.\<close>

definition float_of_int16 :: "int16_t \<Rightarrow> float" where
  "float_of_int16 v = of_int (sint v)"

text \<open>One step of the exponential moving average of a channel.\<close>

definition dc_update :: "float \<Rightarrow> int16_t \<Rightarrow> float" where
  "dc_update dc v =
     fadd (fmul DC_FILTER_ALPHA dc) (fmul (fsub 1 DC_FILTER_ALPHA) (float_of_int16 v))"

definition preprocessing_add_sample ::
  "accel_sample option \<Rightarrow> preprocessing_state \<Rightarrow> int \<times> preprocessing_state" where
  "preprocessing_add_sample sample st =
     (if \<not> initialized st then (- EINVAL, st)
      else
        case sample of
          None \<Rightarrow> (- EINVAL, st)
        | Some s \<Rightarrow>
            let st1 = st\<lparr>dc_offset :=
                        [dc_update (dc_offset st ! 0) (sample_x s),
                         dc_update (dc_offset st ! 1) (sample_y s),
                         dc_update (dc_offset st ! 2) (sample_z s)]\<rparr>;
                st2 = st1\<lparr>sample_window := (sample_window st1)[unat (window_pos st1) := s]\<rparr>;
                st3 = st2\<lparr>window_pos := window_pos st2 + 1\<rparr>
            in if window_pos st3 \<ge> CONFIG_ML_INFERENCE_WINDOW_SIZE
               then (0, st3\<lparr>window_ready := True, window_pos := 0\<rparr>)
               else (0, st3))"

definition preprocessing_window_ready :: "preprocessing_state \<Rightarrow> bool" where
  "preprocessing_window_ready st = window_ready st"

text \<open>
  The quantization of one channel value, as in the loop body of
  \<open>preprocessing_get_input\<close>: remove the DC offset, scale, truncate to \<open>int32_t\<close>,
  clamp with signed comparisons, narrow to \<open>int8_t\<close>.
\<close>

definition clamp_int8 :: "int32_t \<Rightarrow> int32_t" where
  "clamp_int8 q = (if q <s - 128 then - 128 else if 127 <s q then 127 else q)"

definition quantize :: "int16_t \<Rightarrow> float \<Rightarrow> int8_t" where
  "quantize v dc =
     (let x = fsub (float_of_int16 v) dc;
          q = float_to_int32 (fmul x QUANT_SCALE)
      in ucast (clamp_int8 q))"

text \<open>
  The \<open>for\<close> loop over the window, with its two counters \<open>i\<close> and \<open>out_idx\<close>; the
  caller's buffer is updated in place.
\<close>

function quantize_window ::
  "nat \<Rightarrow> nat \<Rightarrow> accel_sample list \<Rightarrow> float list \<Rightarrow> int8_t list \<Rightarrow> int8_t list" where
  "quantize_window i out_idx w dc out =
     (if i < unat CONFIG_ML_INFERENCE_WINDOW_SIZE
      then quantize_window (i + 1) (out_idx + 3) w dc
             (out[out_idx := quantize (sample_x (w ! i)) (dc ! 0),
                  out_idx + 1 := quantize (sample_y (w ! i)) (dc ! 1),
                  out_idx + 2 := quantize (sample_z (w ! i)) (dc ! 2)])
      else out)"
  by pat_completeness auto
termination
  by (relation "measure (\<lambda>(i, out_idx, w, dc, out). unat CONFIG_ML_INFERENCE_WINDOW_SIZE - i)")
    auto

declare quantize_window.simps [simp del]

text \<open>
  \<open>preprocessing_get_input\<close>: \<open>output\<close> is the caller's buffer (\<open>None\<close> for \<open>NULL\<close>),
  \<open>output_size\<close> the size the caller declares for it. The result is the return code,
  the buffer after the call and the new state.
\<close>

definition preprocessing_get_input ::
  "int8_t list option \<Rightarrow> size_t \<Rightarrow> preprocessing_state \<Rightarrow>
     int \<times> int8_t list option \<times> preprocessing_state" where
  "preprocessing_get_input output output_size st =
     (case output of
        None \<Rightarrow> (- EINVAL, None, st)
      | Some out \<Rightarrow>
          if output_size < ML_INPUT_SIZE then (- ENOSPC, Some out, st)
          else if \<not> window_ready st then (- EAGAIN, Some out, st)
          else
            (0, Some (quantize_window 0 0 (sample_window st) (dc_offset st) out),
             st\<lparr>window_ready := False\<rparr>))"

definition preprocessing_clear_window :: "preprocessing_state \<Rightarrow> preprocessing_state" where
  "preprocessing_clear_window st =
     st\<lparr>window_pos := 0, window_ready := False,
        sample_window := replicate (unat CONFIG_ML_INFERENCE_WINDOW_SIZE) zero_sample\<rparr>"

definition preprocessing_get_window_fill :: "preprocessing_state \<Rightarrow> size_t" where
  "preprocessing_get_window_fill st = window_pos st"

text \<open>Feeding a sequence of samples, one call of \<open>preprocessing_add_sample\<close> each.\<close>

fun add_samples :: "accel_sample list \<Rightarrow> preprocessing_state \<Rightarrow> preprocessing_state" where
  "add_samples [] st = st"
| "add_samples (s # ss) st = add_samples ss (snd (preprocessing_add_sample (Some s) st))"

text \<open>
  The quantized feature buffer of a window \<open>w\<close> under the estimates \<open>dc\<close>, as a
  list: one channel-interleaved triple per sample.
\<close>

definition quantize_sample :: "float list \<Rightarrow> accel_sample \<Rightarrow> int8_t list" where
  "quantize_sample dc s =
     [quantize (sample_x s) (dc ! 0), quantize (sample_y s) (dc ! 1),
      quantize (sample_z s) (dc ! 2)]"

definition quantized_window :: "accel_sample list \<Rightarrow> float list \<Rightarrow> int8_t list" where
  "quantized_window w dc = concat (map (quantize_sample dc) w)"

definition channel :: "nat \<Rightarrow> accel_sample \<Rightarrow> int16_t" where
  "channel c s = (if c = 0 then sample_x s else if c = 1 then sample_y s else sample_z s)"


text \<open>
  The three estimates after one more sample, and after a sequence of samples, as
  \<open>preprocessing_add_sample\<close> computes them.
\<close>

definition dc_step :: "float list \<Rightarrow> accel_sample \<Rightarrow> float list" where
  "dc_step dc s =
     [dc_update (dc ! 0) (sample_x s), dc_update (dc ! 1) (sample_y s),
      dc_update (dc ! 2) (sample_z s)]"

text \<open>
  A scenario with a slow consumer: the device at rest (1 g on the Z axis) for one
  whole window, which stays pending, then one sample of a jolt on the X axis.
\<close>

definition rest_sample :: accel_sample where
  "rest_sample = \<lparr>sample_x = 0, sample_y = 0, sample_z = 8192, sample_timestamp_us = 0\<rparr>"

definition jolt_sample :: accel_sample where
  "jolt_sample =
     \<lparr>sample_x = 16384, sample_y = 0, sample_z = 8192, sample_timestamp_us = 0\<rparr>"

definition pending_state :: preprocessing_state where
  "pending_state =
     add_samples (replicate 50 rest_sample) (preprocessing_init preprocessing_state0)"

text \<open>
  A scenario that saturates: 49 samples at rest, then one sample at the ends of the
  16-bit range on the X and Y axes, which completes the window.
\<close>

definition extreme_sample :: accel_sample where
  "extreme_sample =
     \<lparr>sample_x = 32767, sample_y = - 32768, sample_z = 8192, sample_timestamp_us = 0\<rparr>"

definition saturating_state :: preprocessing_state where
  "saturating_state =
     add_samples (replicate 49 rest_sample @ [extreme_sample])
       (preprocessing_init preprocessing_state0)"


section \<open>Inference engine wrapper (src/ml/inference.cpp)\<close>

datatype ml_status_t =
  ML_STATUS_OK | ML_STATUS_NOT_INITIALIZED | ML_STATUS_ALLOC_FAILED |
  ML_STATUS_INVOKE_FAILED | ML_STATUS_INVALID_INPUT | ML_STATUS_ERROR

record ml_stats_t =
  inference_count :: uint32_t
  min_time_us :: uint32_t
  max_time_us :: uint32_t
  total_time_us :: uint64_t
  invoke_failures :: uint32_t

text \<open>
  The statics of inference.cpp that the wrapper itself maintains. The model, the
  interpreter and its tensors belong to TensorFlow Lite Micro; what they answer is
  given to each operation as an argument.
\<close>

record ml_state =
  ml_initialized :: bool
  use_mock_inference :: bool
  ml_stats :: ml_stats_t
  inference_sequence :: uint32_t

definition ml_state0 :: ml_state where
  "ml_state0 =
     \<lparr>ml_initialized = False, use_mock_inference = False,
      ml_stats = \<lparr>inference_count = 0, min_time_us = 0, max_time_us = 0,
                  total_time_us = 0, invoke_failures = 0\<rparr>,
      inference_sequence = 0\<rparr>"

text \<open>
  What the library answers during initialisation: \<open>GetModel\<close> returned a model, its
  schema version matches, the twelve \<open>Add...\<close> calls of \<open>setup_op_resolver\<close> (one flag
  each, true for \<open>kTfLiteOk\<close>), \<open>AllocateTensors\<close> succeeded, and the input and output
  tensors are not null.
\<close>

record tflite_setup =
  model_loaded :: bool
  schema_version_ok :: bool
  op_status :: "bool list"
  tensors_allocated :: bool
  tensors_present :: bool

definition setup_op_resolver :: "bool list \<Rightarrow> int" where
  "setup_op_resolver ops = (if list_all (\<lambda>ok. ok) ops then 0 else - 1)"

definition ml_inference_init :: "tflite_setup \<Rightarrow> ml_state \<Rightarrow> ml_status_t \<times> ml_state" where
  "ml_inference_init lib st =
     (if ml_initialized st then (ML_STATUS_OK, st)
      else if \<not> model_loaded lib
        then (ML_STATUS_OK, st\<lparr>use_mock_inference := True, ml_initialized := True\<rparr>)
      else if \<not> schema_version_ok lib
        then (ML_STATUS_OK, st\<lparr>use_mock_inference := True, ml_initialized := True\<rparr>)
      else if setup_op_resolver (op_status lib) \<noteq> 0
        then (ML_STATUS_OK, st\<lparr>use_mock_inference := True, ml_initialized := True\<rparr>)
      else if \<not> tensors_allocated lib then (ML_STATUS_ALLOC_FAILED, st)
      else if \<not> tensors_present lib then (ML_STATUS_ERROR, st)
      else
        (ML_STATUS_OK,
         st\<lparr>ml_stats :=
               \<lparr>inference_count = 0, min_time_us = UINT32_MAX, max_time_us = 0,
                total_time_us = 0, invoke_failures = 0\<rparr>,
            inference_sequence := 0, ml_initialized := True\<rparr>))"

text \<open>
  What the kernel and the interpreter answer during one \<open>ml_run_inference\<close>: the two
  cycle-counter reads, the clock frequency, whether \<open>Invoke\<close> returned \<open>kTfLiteOk\<close>,
  the output tensor (data, scale, zero point) and the uptime in milliseconds.
\<close>

record invoke_env =
  start_time :: uint32_t
  end_time :: uint32_t
  hw_cycles_per_sec :: uint32_t
  invoke_ok :: bool
  output_data :: "int8_t list"
  output_scale :: float
  output_zero_point :: int32_t
  uptime_get :: uint64_t

definition GESTURE_COUNT :: nat where
  "GESTURE_COUNT = 4"

definition gesture_of_nat :: "nat \<Rightarrow> gesture_label" where
  "gesture_of_nat i =
     (if i = 0 then GESTURE_IDLE else if i = 1 then GESTURE_WAVE
      else if i = 2 then GESTURE_TAP else GESTURE_CIRCLE)"

text \<open>
  The loop over the classes on the real path: dequantize each output, store it in
  \<open>class_scores\<close>, keep the best.
\<close>

function dequantize_scores ::
  "nat \<Rightarrow> invoke_env \<Rightarrow> float list \<Rightarrow> float \<Rightarrow> gesture_label \<Rightarrow>
     float list \<times> float \<times> gesture_label" where
  "dequantize_scores i env scores max_score best_gesture =
     (if i < GESTURE_COUNT
      then
        let score =
              fmul (f32 (of_int (sint (scast (output_data env ! i) - output_zero_point env))))
                (output_scale env);
            scores' = scores[i := score]
        in if max_score < score
           then dequantize_scores (i + 1) env scores' score (gesture_of_nat i)
           else dequantize_scores (i + 1) env scores' max_score best_gesture
      else (scores, max_score, best_gesture))"
  by pat_completeness auto
termination
  by (relation "measure (\<lambda>(i, env, scores, max_score, best_gesture). GESTURE_COUNT - i)")
    auto

declare dequantize_scores.simps [simp del]

text \<open>The synthetic scores of the mock path, which depend on the sequence counter.\<close>

definition mock_scores :: "uint32_t \<Rightarrow> float list \<Rightarrow> float list \<times> float \<times> gesture_label" where
  "mock_scores seq scores =
     (let s0 = scores[0 := f32 (95 / 100), 1 := f32 (2 / 100), 2 := f32 (2 / 100),
                      3 := f32 (1 / 100)]
      in if seq mod 50 = 25
           then (s0[1 := f32 (85 / 100), 0 := f32 (10 / 100)], f32 (85 / 100), GESTURE_WAVE)
         else if seq mod 50 = 35
           then (s0[2 := f32 (90 / 100), 0 := f32 (5 / 100)], f32 (90 / 100), GESTURE_TAP)
         else (s0, f32 (95 / 100), GESTURE_IDLE))"

text \<open>
  \<open>ml_run_inference\<close>: \<open>input_data\<close> and \<open>result\<close> are the two pointer arguments
  (\<open>None\<close> for null; \<open>result\<close> holds the caller's object). The result is the status,
  the caller's object after the call and the new state. (The copy of the input into
  the input tensor changes the library's memory only.)
\<close>

definition ml_run_inference ::
  "invoke_env \<Rightarrow> int8_t list option \<Rightarrow> inference_result option \<Rightarrow> ml_state \<Rightarrow>
     ml_status_t \<times> inference_result option \<times> ml_state" where
  "ml_run_inference env input_data result st =
     (if \<not> ml_initialized st then (ML_STATUS_NOT_INITIALIZED, result, st)
      else
        case (input_data, result) of
          (None, _) \<Rightarrow> (ML_STATUS_INVALID_INPUT, result, st)
        | (Some inp, None) \<Rightarrow> (ML_STATUS_INVALID_INPUT, result, st)
        | (Some inp, Some r) \<Rightarrow>
            let status_ok = (if use_mock_inference st then True else invoke_ok env);
                cycles = end_time env - start_time env;
                freq_mhz = hw_cycles_per_sec env div 1000000;
                time_us = (if 0 < freq_mhz then cycles div freq_mhz else 0)
            in if \<not> status_ok
               then
                 (ML_STATUS_INVOKE_FAILED, result,
                  st\<lparr>ml_stats := (ml_stats st)
                        \<lparr>invoke_failures := invoke_failures (ml_stats st) + 1\<rparr>\<rparr>)
               else
                 let (scores, max_score, best_gesture) =
                       (if use_mock_inference st
                        then mock_scores (inference_sequence st) (class_scores r)
                        else dequantize_scores 0 env (class_scores r) (- 1000) GESTURE_IDLE);
                     st1 = st\<lparr>inference_sequence := inference_sequence st + 1\<rparr>;
                     r1 = r\<lparr>class_scores := scores, gesture := best_gesture,
                            confidence := max_score, inference_time_us := time_us,
                            timestamp_us := ucast (uptime_get env * 1000),
                            sequence := inference_sequence st1\<rparr>;
                     stats1 = (ml_stats st1)
                       \<lparr>inference_count := inference_count (ml_stats st1) + 1,
                        total_time_us := total_time_us (ml_stats st1) + ucast time_us\<rparr>;
                     stats2 = (if time_us < min_time_us stats1
                               then stats1\<lparr>min_time_us := time_us\<rparr> else stats1);
                     stats3 = (if max_time_us stats2 < time_us
                               then stats2\<lparr>max_time_us := time_us\<rparr> else stats2)
                 in (ML_STATUS_OK, Some r1, st1\<lparr>ml_stats := stats3\<rparr>))"

text \<open>
  A run of the computation context's calls: each call has its own environment and
  input; the results of the successful calls are collected in order.
\<close>

fun run_inferences ::
  "(invoke_env \<times> int8_t list option) list \<Rightarrow> ml_state \<Rightarrow> inference_result list \<times> ml_state" where
  "run_inferences [] st = ([], st)"
| "run_inferences ((env, inp) # calls) st =
     (case ml_run_inference env inp (Some zero_result) st of
        (status, Some r, st') \<Rightarrow>
          (if status = ML_STATUS_OK
           then (r # fst (run_inferences calls st'), snd (run_inferences calls st'))
           else run_inferences calls st')
      | (status, None, st') \<Rightarrow> run_inferences calls st')"

text \<open>A call on the mock path, and a state whose counter is two below the top.\<close>

definition mock_call :: "invoke_env \<times> int8_t list option" where
  "mock_call =
     (\<lparr>start_time = 0, end_time = 125000, hw_cycles_per_sec = 25000000, invoke_ok = True,
       output_data = [], output_scale = 0, output_zero_point = 0, uptime_get = 1000\<rparr>,
      Some (replicate 150 0))"

definition late_state :: ml_state where
  "late_state =
     \<lparr>ml_initialized = True, use_mock_inference = True,
      ml_stats = \<lparr>inference_count = 0xFFFFFFFE, min_time_us = 5000, max_time_us = 5000,
                  total_time_us = 0, invoke_failures = 0\<rparr>,
      inference_sequence = 0xFFFFFFFE\<rparr>"

definition failed_lib :: tflite_setup where
  "failed_lib =
     \<lparr>model_loaded = False, schema_version_ok = False, op_status = [],
      tensors_allocated = False, tensors_present = False\<rparr>"


section \<open>Resource monitor (src/debug/debug_monitor.c)\<close>

definition STACK_WARNING_THRESHOLD :: int where
  "STACK_WARNING_THRESHOLD = 80"

definition MAX_MONITORED_THREADS :: int where
  "MAX_MONITORED_THREADS = 4"

text \<open>A \<open>struct k_thread *\<close> is an identifier of the thread, or \<open>None\<close> for \<open>NULL\<close>.\<close>

type_synonym thread_id = nat

record monitored_thread =
  thread :: "thread_id option"
  name :: string
  thread_stack_size :: size_t
  peak_usage :: uint32_t

definition zero_thread :: monitored_thread where
  "zero_thread = \<lparr>thread = None, name = [], thread_stack_size = 0, peak_usage = 0\<rparr>"

text \<open>The statics of debug_monitor.c.\<close>

record monitor_state =
  monitored :: "monitored_thread list"
  monitored_count :: int
  total_stack_warnings :: uint32_t
  monitor_initialized :: bool
  last_check_time :: uint32_t
  last_cpu_cycles :: uint64_t

definition monitor_state0 :: monitor_state where
  "monitor_state0 =
     \<lparr>monitored = replicate (nat MAX_MONITORED_THREADS) zero_thread, monitored_count = 0,
      total_stack_warnings = 0, monitor_initialized = False, last_check_time = 0,
      last_cpu_cycles = 0\<rparr>"

text \<open>\<open>debug_stats_t\<close> of debug_monitor.h.\<close>

record debug_stats_t =
  uptime_ms :: uint32_t
  heap_used :: uint32_t
  heap_free :: uint32_t
  stack_used :: uint32_t
  stack_size :: uint32_t
  ml_stack_used :: uint32_t
  ml_stack_size :: uint32_t
  cpu_usage_percent :: float
  stack_warnings :: uint32_t

definition zero_stats :: debug_stats_t where
  "zero_stats =
     \<lparr>uptime_ms = 0, heap_used = 0, heap_free = 0, stack_used = 0, stack_size = 0,
      ml_stack_used = 0, ml_stack_size = 0, cpu_usage_percent = 0, stack_warnings = 0\<rparr>"

text \<open>
  What the build configuration and the kernel answer during one call: the two
  configuration switches of the conditional code, the uptime (read twice by
  \<open>debug_monitor_get_stats\<close>), the current thread, for every thread the return code and
  the unused bytes of \<open>k_thread_stack_space_get\<close> and its \<open>stack_info.size\<close>, the return
  code and the execution cycles of \<open>k_thread_runtime_stats_get\<close>, and the clock
  frequency.
\<close>

record kernel_env =
  CONFIG_THREAD_STACK_INFO :: bool
  CONFIG_SCHED_THREAD_USAGE :: bool
  k_uptime_get_32 :: uint32_t
  k_uptime_now :: uint32_t
  k_current_get :: thread_id
  k_thread_stack_space_get :: "thread_id \<Rightarrow> int \<times> size_t"
  stack_info_size :: "thread_id \<Rightarrow> size_t"
  k_thread_runtime_stats_get :: "int \<times> uint64_t"
  sys_clock_hw_cycles_per_sec :: uint32_t

definition debug_monitor_init :: "kernel_env \<Rightarrow> monitor_state \<Rightarrow> int \<times> monitor_state" where
  "debug_monitor_init env st =
     (if monitor_initialized st then (0, st)
      else
        (0, st\<lparr>monitored_count := 0, total_stack_warnings := 0,
               last_check_time := k_uptime_get_32 env, last_cpu_cycles := 0,
               monitor_initialized := True\<rparr>))"

definition debug_monitor_register_thread ::
  "thread_id option \<Rightarrow> string option \<Rightarrow> monitor_state \<Rightarrow> int \<times> monitor_state" where
  "debug_monitor_register_thread thr nm st =
     (case (thr, nm) of
        (Some t, Some n) \<Rightarrow>
          if monitored_count st \<ge> MAX_MONITORED_THREADS then (- ENOSPC, st)
          else
            (0, st\<lparr>monitored := (monitored st)[nat (monitored_count st) :=
                        \<lparr>thread = Some t, name = n, thread_stack_size = 0, peak_usage = 0\<rparr>],
                   monitored_count := monitored_count st + 1\<rparr>)
      | _ \<Rightarrow> (- EINVAL, st))"

text \<open>
  The body of the loop of \<open>debug_monitor_get_stats\<close> for the table entry \<open>i\<close>: it works
  on the snapshot under construction and on the monitor's state.
\<close>

definition stats_probe ::
  "kernel_env \<Rightarrow> nat \<Rightarrow> debug_stats_t \<times> monitor_state \<Rightarrow> debug_stats_t \<times> monitor_state" where
  "stats_probe env i = (\<lambda>(stats, st).
     case thread (monitored st ! i) of
       None \<Rightarrow> (stats, st)
     | Some t \<Rightarrow>
         if CONFIG_THREAD_STACK_INFO env then
           let (ret, unused_space) = k_thread_stack_space_get env t
           in if ret = 0 then
                let size = stack_info_size env t;
                    used = size - unused_space;
                    st1 = (if peak_usage (monitored st ! i) < used
                           then st\<lparr>monitored := (monitored st)
                                  [i := (monitored st ! i)\<lparr>peak_usage := used\<rparr>]\<rparr>
                           else st);
                    stats1 = (if name (monitored st1 ! i) = ''ml_thread''
                              then stats\<lparr>ml_stack_size := size, ml_stack_used := used\<rparr>
                              else stats)
                in (stats1, st1)
              else (stats, st)
         else (stats, st))"

text \<open>The estimate of the CPU usage at the end of \<open>debug_monitor_get_stats\<close>.\<close>

definition cpu_usage ::
  "kernel_env \<Rightarrow> debug_stats_t \<times> monitor_state \<Rightarrow> debug_stats_t \<times> monitor_state" where
  "cpu_usage env = (\<lambda>(stats, st).
     if CONFIG_SCHED_THREAD_USAGE env then
       let (rv, execution_cycles) = k_thread_runtime_stats_get env
       in if rv = 0 then
            let now = k_uptime_now env;
                delta_time = now - last_check_time st;
                stats1 =
                  (if 0 < delta_time \<and> 0 < last_cpu_cycles st then
                     let delta_cycles = execution_cycles - last_cpu_cycles st;
                         total_cycles = (ucast delta_time :: uint64_t) *
                           ucast (sys_clock_hw_cycles_per_sec env div 1000)
                     in if 0 < total_cycles
                        then stats\<lparr>cpu_usage_percent :=
                               fdiv (f32 (of_nat (unat (delta_cycles * 100))))
                                 (f32 (of_nat (unat total_cycles)))\<rparr>
                        else stats
                   else stats)
            in (stats1, st\<lparr>last_cpu_cycles := execution_cycles, last_check_time := now\<rparr>)
          else (stats\<lparr>cpu_usage_percent := 0\<rparr>, st)
     else (stats\<lparr>cpu_usage_percent := 0\<rparr>, st))"

text \<open>
  \<open>debug_monitor_get_stats\<close>: \<open>stats\<close> is the caller's object (\<open>None\<close> for \<open>NULL\<close>). The
  result is the return code, the object after the call and the new state of the
  monitor. The loop runs over the entries \<open>0, ..., monitored_count - 1\<close>; its body does
  not change \<open>monitored_count\<close>.
\<close>

definition debug_monitor_get_stats ::
  "kernel_env \<Rightarrow> debug_stats_t option \<Rightarrow> monitor_state \<Rightarrow>
     int \<times> debug_stats_t option \<times> monitor_state" where
  "debug_monitor_get_stats env stats st =
     (case stats of
        None \<Rightarrow> (- EINVAL, None, st)
      | Some s0 \<Rightarrow>
          let s1 = s0\<lparr>uptime_ms := k_uptime_get_32 env, heap_used := 0, heap_free := 0\<rparr>;
              s2 =
                (if CONFIG_THREAD_STACK_INFO env then
                   let (ret, unused) = k_thread_stack_space_get env (k_current_get env)
                   in if ret = 0
                      then s1\<lparr>stack_size := stack_info_size env (k_current_get env),
                              stack_used := stack_info_size env (k_current_get env) - unused\<rparr>
                      else s1\<lparr>stack_size := 0, stack_used := 0\<rparr>
                 else s1\<lparr>stack_size := 0, stack_used := 0\<rparr>);
              s3 = s2\<lparr>ml_stack_size := 0, ml_stack_used := 0\<rparr>;
              (s4, st1) = fold (stats_probe env) [0..<nat (monitored_count st)] (s3, st);
              (s5, st2) = cpu_usage env (s4, st1)
          in (0, Some (s5\<lparr>stack_warnings := total_stack_warnings st2\<rparr>), st2))"

definition debug_get_stack_percent :: "kernel_env \<Rightarrow> thread_id option \<Rightarrow> int" where
  "debug_get_stack_percent env thr =
     (case thr of
        None \<Rightarrow> - EINVAL
      | Some t \<Rightarrow>
          if CONFIG_THREAD_STACK_INFO env then
            let (ret, unused) = k_thread_stack_space_get env t
            in if ret \<noteq> 0 then 0
               else
                 let size = stack_info_size env t
                 in if size = 0 then 0
                    else let used = size - unused in sint ((used * 100) div size)
          else 0)"

text \<open>The body of the loop of \<open>debug_monitor_check\<close> for the table entry \<open>i\<close>.\<close>

definition check_thread :: "kernel_env \<Rightarrow> nat \<Rightarrow> int \<times> monitor_state \<Rightarrow> int \<times> monitor_state" where
  "check_thread env i = (\<lambda>(issues, st).
     case thread (monitored st ! i) of
       None \<Rightarrow> (issues, st)
     | Some t \<Rightarrow>
         let percent = debug_get_stack_percent env (Some t)
         in if STACK_WARNING_THRESHOLD < percent
            then (issues + 1, st\<lparr>total_stack_warnings := total_stack_warnings st + 1\<rparr>)
            else (issues, st))"

definition debug_monitor_check :: "kernel_env \<Rightarrow> monitor_state \<Rightarrow> int \<times> monitor_state" where
  "debug_monitor_check env st =
     (if \<not> monitor_initialized st then (- EINVAL, st)
      else
        let (issues, st1) = fold (check_thread env) [0..<nat (monitored_count st)] (0, st)
        in (if 0 < issues then - ENOSPC else 0, st1))"

definition debug_monitor_healthy :: "kernel_env \<Rightarrow> monitor_state \<Rightarrow> bool \<times> monitor_state" where
  "debug_monitor_healthy env st =
     (fst (debug_monitor_check env st) = 0, snd (debug_monitor_check env st))"

text \<open>
  Whether entry \<open>i\<close> of the table is above the warning threshold under \<open>env\<close>, and the
  usage that \<open>debug_monitor_get_stats\<close> reads for a thread.
\<close>

definition over_threshold :: "kernel_env \<Rightarrow> monitor_state \<Rightarrow> nat \<Rightarrow> bool" where
  "over_threshold env st i =
     (thread (monitored st ! i) \<noteq> None \<and>
      STACK_WARNING_THRESHOLD < debug_get_stack_percent env (thread (monitored st ! i)))"

definition stack_usage :: "kernel_env \<Rightarrow> thread_id \<Rightarrow> size_t" where
  "stack_usage env t = stack_info_size env t - snd (k_thread_stack_space_get env t)"

text \<open>What one pass of \<open>debug_monitor_get_stats\<close> does to a table entry.\<close>

definition probe_entry :: "kernel_env \<Rightarrow> monitored_thread \<Rightarrow> monitored_thread" where
  "probe_entry env m =
     (case thread m of
        None \<Rightarrow> m
      | Some t \<Rightarrow>
          if CONFIG_THREAD_STACK_INFO env \<and> fst (k_thread_stack_space_get env t) = 0 \<and>
             peak_usage m < stack_usage env t
          then m\<lparr>peak_usage := stack_usage env t\<rparr> else m)"

text \<open>
  A scenario with the inference thread (4096 bytes of stack) and the sensor thread
  registered. In \<open>env_ml_high\<close> the inference thread uses 3800 bytes (92 percent) and the
  sensor thread 1000; in \<open>env_sensor_high\<close> it is the other way round; in \<open>env_low\<close>
  both use 1000 bytes.
\<close>

definition env_of :: "(thread_id \<Rightarrow> int \<times> size_t) \<Rightarrow> kernel_env" where
  "env_of probes =
     \<lparr>CONFIG_THREAD_STACK_INFO = True, CONFIG_SCHED_THREAD_USAGE = False,
      k_uptime_get_32 = 5000, k_uptime_now = 5000, k_current_get = 3,
      k_thread_stack_space_get = probes, stack_info_size = (\<lambda>t. 4096),
      k_thread_runtime_stats_get = (0, 0), sys_clock_hw_cycles_per_sec = 25000000\<rparr>"

definition env_ml_high :: kernel_env where
  "env_ml_high = env_of (\<lambda>t. if t = 1 then (0, 296) else (0, 3096))"

definition env_sensor_high :: kernel_env where
  "env_sensor_high = env_of (\<lambda>t. if t = 2 then (0, 296) else (0, 3096))"

definition env_low :: kernel_env where
  "env_low = env_of (\<lambda>t. (0, 3096))"

definition two_threads :: monitor_state where
  "two_threads =
     snd (debug_monitor_register_thread (Some 2) (Some ''sensor'')
       (snd (debug_monitor_register_thread (Some 1) (Some ''ml_thread'')
         (snd (debug_monitor_init env_low monitor_state0)))))"

text \<open>
  Two more environments: in \<open>env_boundary\<close> every thread uses 3300 of its 4096 bytes
  (80.57 percent, which the integer division turns into 80); \<open>env_usage_on\<close> is
  \<open>env_ml_high\<close> with thread usage accounting configured, 123456 execution cycles
  reported and the uptime 6000 at the second read.
\<close>

definition env_boundary :: kernel_env where
  "env_boundary = env_of (\<lambda>t. (0, 796))"

definition env_usage_on :: kernel_env where
  "env_usage_on =
     env_ml_high\<lparr>CONFIG_SCHED_THREAD_USAGE := True, k_uptime_now := 6000,
                  k_thread_runtime_stats_get := (0, 123456)\<rparr>"


section \<open>Synchronization gate (the semaphore \<open>ml_sem\<close> of the main application)\<close>

text \<open>
  The main application defines the gate with \<open>K_SEM_DEFINE(ml_sem, 0, 1)\<close>: a kernel
  semaphore with initial count 0 and limit 1. The sampling context gives it when a
  window is ready, the computation context takes it with a timeout of one second.
\<close>

record k_sem =
  sem_count :: nat
  sem_limit :: nat

definition ml_sem :: k_sem where
  "ml_sem = \<lparr>sem_count = 0, sem_limit = 1\<rparr>"

text \<open>
  Modelled from the spec: the kernel's \<open>k_sem_give\<close> is not among the sources. The
  spec's \<open>notify()\<close> sets the slot to signaled if it is not already signaled: a give
  raises the count by one unless the count is at its limit.
\<close>

definition k_sem_give :: "k_sem \<Rightarrow> k_sem" where
  "k_sem_give s = (if sem_count s < sem_limit s then s\<lparr>sem_count := sem_count s + 1\<rparr> else s)"

datatype wait_result = Signaled | TimedOut

text \<open>
  Modelled from the spec: the kernel's \<open>k_sem_take\<close> is not among the sources. The
  spec's \<open>wait(timeout)\<close> returns \<open>Signaled\<close> and consumes the pending signal when there
  is one; with none pending, and no give while it waits, it returns \<open>TimedOut\<close>.
\<close>

definition k_sem_take :: "k_sem \<Rightarrow> wait_result \<times> k_sem" where
  "k_sem_take s =
     (if 0 < sem_count s then (Signaled, s\<lparr>sem_count := sem_count s - 1\<rparr>)
      else (TimedOut, s))"

text \<open>
  One iteration of \<open>sensor_thread_fn\<close> with a sample read successfully: the sample is
  added, and the gate is given if a window is ready then.
\<close>

definition sensor_iteration ::
  "accel_sample \<Rightarrow> preprocessing_state \<times> k_sem \<Rightarrow> preprocessing_state \<times> k_sem" where
  "sensor_iteration sample = (\<lambda>(st, sem).
     let st1 = snd (preprocessing_add_sample (Some sample) st)
     in if preprocessing_window_ready st1 then (st1, k_sem_give sem) else (st1, sem))"


section \<open>Properties of the timing facility\<close>

lemma elapsed_cycles_diff: "elapsed_cycles e s = e - s"
  by (simp add: elapsed_cycles_def UINT32_MAX_def)

lemma profile_timing_init_positive:
  "\<not> timing_initialized st \<Longrightarrow> 0 < cycles_per_us (profile_timing_init freq st)"
  by (simp add: profile_timing_init_def Let_def word_greater_zero_iff)

text \<open>
  Claim C9. For every pair of 32-bit cycle counts, the elapsed-cycles value of
  \<open>profile_timing_end\<close> is \<open>(end - start) mod 2^32\<close>, also when the counter has wrapped
  and \<open>end < start\<close>; the function returns that quantity divided by the
  cycles-per-microsecond factor when the factor is positive (which
  \<open>profile_timing_init\<close> guarantees), and the raw cycle count otherwise.
\<close>

theorem profile_timing_end_wraparound:
  "uint (elapsed_cycles e s) = (uint e - uint s) mod 2 ^ 32 \<and>
   (0 < cycles_per_us st \<longrightarrow>
      uint (profile_timing_end st e s) =
        ((uint e - uint s) mod 2 ^ 32) div uint (cycles_per_us st)) \<and>
   (cycles_per_us st = 0 \<longrightarrow>
      uint (profile_timing_end st e s) = (uint e - uint s) mod 2 ^ 32) \<and>
   0 < cycles_per_us (profile_timing_init freq timing_state0)"
proof -
  have a: "uint (elapsed_cycles e s) = (uint e - uint s) mod 2 ^ 32"
    by (simp add: elapsed_cycles_diff uint_word_ariths)
  have b: "0 < cycles_per_us st \<longrightarrow>
      uint (profile_timing_end st e s) =
        ((uint e - uint s) mod 2 ^ 32) div uint (cycles_per_us st)"
    by (simp add: profile_timing_end_def elapsed_cycles_diff uint_word_ariths uint_div)
  have c: "cycles_per_us st = 0 \<longrightarrow>
      uint (profile_timing_end st e s) = (uint e - uint s) mod 2 ^ 32"
    by (simp add: profile_timing_end_def elapsed_cycles_diff uint_word_ariths)
  have d: "0 < cycles_per_us (profile_timing_init freq timing_state0)"
    by (rule profile_timing_init_positive) (simp add: timing_state0_def)
  from a b c d show ?thesis by blast
qed

text \<open>
  The theorem at a wrapped counter: started at \<open>2^32 - 5\<close>, ended at \<open>5\<close>, with
  2 cycles per microsecond: 10 cycles elapsed, 5 microseconds returned.
\<close>

theorem profile_timing_end_wraparound_witness:
  "(0::uint32_t) < cycles_per_us \<lparr>cycles_per_us = 2, timing_initialized = True\<rparr> \<and>
   uint (elapsed_cycles 5 0xFFFFFFFB) = 10 \<and>
   uint (profile_timing_end \<lparr>cycles_per_us = 2, timing_initialized = True\<rparr> 5 0xFFFFFFFB) = 5"
  using profile_timing_end_wraparound
    [of 5 "0xFFFFFFFB" "\<lparr>cycles_per_us = 2, timing_initialized = True\<rparr>" 0]
  by simp


section \<open>Properties of the result queue\<close>

subsection \<open>Index arithmetic\<close>

lemma cap16: "unat CONFIG_OUTPUT_RING_BUFFER_SIZE = 16"
  by (simp add: CONFIG_OUTPUT_RING_BUFFER_SIZE_def)

lemma unat_succ_mod16: "unat ((w + 1) mod CONFIG_OUTPUT_RING_BUFFER_SIZE) = (unat w + 1) mod 16"
proof -
  have "unat ((w + 1) mod (16::32 word)) = unat (w + 1) mod 16"
    by (simp add: unat_mod)
  also have "unat (w + 1) = (unat w + 1) mod 2 ^ 32"
    by (simp add: unat_word_ariths)
  also have "(unat w + 1) mod 2 ^ 32 mod 16 = (unat w + 1) mod 16"
    by (simp add: mod_mod_cancel)
  finally show ?thesis by (simp add: CONFIG_OUTPUT_RING_BUFFER_SIZE_def)
qed

lemma full_iff: "(count rb \<ge> CONFIG_OUTPUT_RING_BUFFER_SIZE) = (16 \<le> unat (count rb))"
  by (simp add: CONFIG_OUTPUT_RING_BUFFER_SIZE_def word_le_nat_alt)

lemma unat_pred: "w \<noteq> 0 \<Longrightarrow> unat (w - 1) = unat w - 1" for w :: "32 word"
  by (simp add: unat_minus_one)

lemma unat_succ: "unat w < 16 \<Longrightarrow> unat (w + 1) = unat w + 1" for w :: "32 word"
  by (simp add: unat_word_ariths)

lemma push_inv: "ring_inv rb \<Longrightarrow> ring_inv (snd (result_buffer_push r rb))"
proof (cases r)
  case None then show "ring_inv rb \<Longrightarrow> ?thesis" by (simp add: result_buffer_push_def)
next
  case (Some a)
  assume inv: "ring_inv rb"
  show ?thesis
  proof (cases "16 \<le> unat (count rb)")
    case True
    with inv have c: "unat (count rb) = 16" by (simp add: ring_inv_def cap16)
    then have nz: "count rb \<noteq> 0" by auto
    have c1: "unat (count rb - 1) = 15" using c nz by (simp add: unat_pred)
    have c2: "unat (count rb - 1 + 1) = 16" using c by simp
    from inv c have h: "unat (head rb) = unat (tail rb) mod 16" by (simp add: ring_inv_def cap16)
    show ?thesis using True c h
      by (simp add: Some result_buffer_push_def Let_def full_iff ring_inv_def cap16 unat_succ_mod16 mod_Suc_eq)
  next
    case False
    then have c2: "unat (count rb + 1) = unat (count rb) + 1" by (simp add: unat_succ)
    from inv have h: "unat (head rb) = (unat (tail rb) + unat (count rb)) mod 16" by (simp add: ring_inv_def cap16)
    show ?thesis using False h c2
      by (simp add: Some result_buffer_push_def Let_def full_iff ring_inv_def cap16 unat_succ_mod16 mod_Suc_eq)
  qed
qed

lemma pop_inv: "ring_inv rb \<Longrightarrow> ring_inv (snd (snd (result_buffer_pop p rb)))"
proof (cases p)
  case None then show "ring_inv rb \<Longrightarrow> ?thesis" by (simp add: result_buffer_pop_def)
next
  case (Some old)
  assume inv: "ring_inv rb"
  show ?thesis
  proof (cases "count rb = 0")
    case True with inv show ?thesis by (simp add: Some result_buffer_pop_def)
  next
    case False
    then have c1: "unat (count rb - 1) = unat (count rb) - 1" by (simp add: unat_pred)
    from False have pos: "0 < unat (count rb)" by (simp add: unat_gt_0)
    from inv have h: "unat (head rb) = (unat (tail rb) + unat (count rb)) mod 16"
      and le: "unat (count rb) \<le> 16" by (simp_all add: ring_inv_def cap16)
    have "(Suc (unat (tail rb)) mod 16 + (unat (count rb) - 1)) mod 16 = (Suc (unat (tail rb)) + (unat (count rb) - 1)) mod 16"
      by (simp add: mod_add_left_eq)
    also have "Suc (unat (tail rb)) + (unat (count rb) - 1) = unat (tail rb) + unat (count rb)"
      using pos by simp
    finally show ?thesis using False h le c1
      by (simp add: Some result_buffer_pop_def ring_inv_def cap16 unat_succ_mod16)
  qed
qed

lemma length_contents: "length (contents rb) = unat (count rb)"
  by (simp add: contents_def)

lemma mod16_neq: "i < j \<Longrightarrow> j < i + 16 \<Longrightarrow> (t + i) mod 16 \<noteq> (t + j) mod (16::nat)"
proof
  assume a: "i < j" "j < i + 16" and e: "(t + i) mod 16 = (t + j) mod (16::nat)"
  from e have "(t + j - (t + i)) mod 16 = 0" using a
    by (metis add_le_cancel_left less_imp_le_nat mod_eq_dvd_iff_nat mod_0_imp_dvd dvd_imp_mod_0)
  then have "(j - i) mod 16 = 0" by simp
  with a show False by auto
qed

lemma tail_lt: "ring_wf rb \<Longrightarrow> unat (tail rb) < 16"
  by (simp add: ring_wf_def CONFIG_OUTPUT_RING_BUFFER_SIZE_def word_less_nat_alt)

lemma push_wf: "ring_wf rb \<Longrightarrow> ring_wf (snd (result_buffer_push r rb))"
proof -
  assume wf: "ring_wf rb"
  then have inv: "ring_inv (snd (result_buffer_push r rb))"
    by (simp add: ring_wf_def push_inv)
  have len: "length (buffer (snd (result_buffer_push r rb))) = 16"
    using wf by (cases r) (simp_all add: result_buffer_push_def Let_def ring_wf_def cap16)
  have tl: "unat (tail (snd (result_buffer_push r rb))) < 16"
    using tail_lt [OF wf]
    by (cases r) (simp_all add: result_buffer_push_def Let_def unat_succ_mod16)
  from inv len tl show ?thesis
    by (simp add: ring_wf_def cap16 CONFIG_OUTPUT_RING_BUFFER_SIZE_def word_less_nat_alt)
qed

lemma pop_wf: "ring_wf rb \<Longrightarrow> ring_wf (snd (snd (result_buffer_pop p rb)))"
proof -
  assume wf: "ring_wf rb"
  then have inv: "ring_inv (snd (snd (result_buffer_pop p rb)))"
    by (simp add: ring_wf_def pop_inv)
  have len: "length (buffer (snd (snd (result_buffer_pop p rb)))) = 16"
    using wf by (cases p) (simp_all add: result_buffer_pop_def ring_wf_def cap16)
  have tl: "unat (tail (snd (snd (result_buffer_pop p rb)))) < 16"
    using tail_lt [OF wf]
    by (cases p) (simp_all add: result_buffer_pop_def unat_succ_mod16)
  from inv len tl show ?thesis
    by (simp add: ring_wf_def cap16 CONFIG_OUTPUT_RING_BUFFER_SIZE_def word_less_nat_alt)
qed

lemma push_contents_room:
  assumes wf: "ring_wf rb" and room: "unat (count rb) < 16"
  shows "contents (snd (result_buffer_push (Some r) rb)) = contents rb @ [r]"
proof -
  let ?t = "unat (tail rb)" and ?c = "unat (count rb)"
  from wf have h: "unat (head rb) = (?t + ?c) mod 16" and len: "length (buffer rb) = 16"
    by (simp_all add: ring_wf_def ring_inv_def cap16)
  have c2: "unat (count rb + 1) = ?c + 1" using room by (simp add: unat_succ)
  have st: "snd (result_buffer_push (Some r) rb) =
      rb\<lparr>buffer := (buffer rb)[(?t + ?c) mod 16 := r],
         head := (head rb + 1) mod CONFIG_OUTPUT_RING_BUFFER_SIZE, count := count rb + 1\<rparr>"
    using room h by (simp add: result_buffer_push_def Let_def full_iff)
  show ?thesis
  proof (rule nth_equalityI)
    show "length (contents (snd (result_buffer_push (Some r) rb))) = length (contents rb @ [r])"
      by (simp add: st length_contents c2)
  next
    fix i assume "i < length (contents (snd (result_buffer_push (Some r) rb)))"
    then have i: "i < ?c + 1" by (simp add: st length_contents c2)
    show "contents (snd (result_buffer_push (Some r) rb)) ! i = (contents rb @ [r]) ! i"
    proof (cases "i < ?c")
      case True
      then have ne: "(?t + i) mod 16 \<noteq> (?t + ?c) mod 16"
        using room by (intro mod16_neq) simp_all
      have "contents (snd (result_buffer_push (Some r) rb)) ! i = buffer rb ! ((?t + i) mod 16)"
        using i ne by (simp add: st contents_def c2 cap16 del: upt_Suc)
      also have "\<dots> = contents rb ! i"
        using True by (simp add: contents_def cap16)
      finally show ?thesis using True by (simp add: nth_append length_contents)
    next
      case False
      with i have e: "i = ?c" by simp
      show ?thesis using len
        by (simp add: e st contents_def c2 cap16 nth_append del: upt_Suc)
    qed
  qed
qed

lemma push_contents_full:
  assumes wf: "ring_wf rb" and full: "unat (count rb) = 16"
  shows "contents (snd (result_buffer_push (Some r) rb)) = tl (contents rb) @ [r]"
proof -
  let ?t = "unat (tail rb)"
  from wf full have h: "unat (head rb) = ?t" and len: "length (buffer rb) = 16"
    using tail_lt [OF wf] by (simp_all add: ring_wf_def ring_inv_def cap16)
  from full have nz: "count rb \<noteq> 0" by auto
  have c2: "unat (count rb - 1 + 1) = 16" using full by simp
  have st: "snd (result_buffer_push (Some r) rb) =
      rb\<lparr>tail := (tail rb + 1) mod CONFIG_OUTPUT_RING_BUFFER_SIZE,
         buffer := (buffer rb)[?t := r],
         head := (head rb + 1) mod CONFIG_OUTPUT_RING_BUFFER_SIZE, count := count rb - 1 + 1\<rparr>"
    using full h by (simp add: result_buffer_push_def Let_def full_iff)
  show ?thesis
  proof (rule nth_equalityI)
    show "length (contents (snd (result_buffer_push (Some r) rb))) = length (tl (contents rb) @ [r])"
      using full by (simp add: st length_contents)
  next
    fix i assume "i < length (contents (snd (result_buffer_push (Some r) rb)))"
    then have i: "i < 16" using full by (simp add: st length_contents)
    have idx: "((?t + 1) mod 16 + i) mod 16 = (?t + (i + 1)) mod 16"
      by (simp add: mod_add_left_eq)
    show "contents (snd (result_buffer_push (Some r) rb)) ! i = (tl (contents rb) @ [r]) ! i"
    proof (cases "i < 15")
      case True
      have ne: "(?t + (i + 1)) mod 16 \<noteq> ?t"
      proof -
        have "(?t + 0) mod 16 \<noteq> (?t + (i + 1)) mod 16"
          using True by (intro mod16_neq) simp_all
        then show ?thesis using tail_lt [OF wf] by simp
      qed
      have "contents (snd (result_buffer_push (Some r) rb)) ! i = buffer rb ! ((?t + (i + 1)) mod 16)"
        using i ne idx by (simp add: st contents_def cap16 unat_succ_mod16 full del: upt_Suc)
      also have "\<dots> = contents rb ! (i + 1)"
        using True full by (simp add: contents_def cap16 del: upt_Suc)
      finally show ?thesis using True full
        by (simp add: nth_append length_contents nth_tl)
    next
      case False
      with i have e: "i = 15" by simp
      have "(?t + 16) mod 16 = ?t" using tail_lt [OF wf] by simp
      then show ?thesis using len full idx tail_lt [OF wf]
        by (simp add: e st contents_def cap16 unat_succ_mod16 nth_append length_contents del: upt_Suc)
    qed
  qed
qed

lemma pop_contents:
  assumes wf: "ring_wf rb" and ne: "count rb \<noteq> 0"
  shows "result_buffer_pop (Some old) rb =
           (0, Some (hd (contents rb)), snd (snd (result_buffer_pop (Some old) rb)))"
    and "contents (snd (snd (result_buffer_pop (Some old) rb))) = tl (contents rb)"
    and "unat (count (snd (snd (result_buffer_pop (Some old) rb)))) = unat (count rb) - 1"
proof -
  let ?t = "unat (tail rb)" and ?c = "unat (count rb)"
  from ne have pos: "0 < ?c" by (simp add: unat_gt_0)
  have c1: "unat (count rb - 1) = ?c - 1" using ne by (simp add: unat_pred)
  have hd: "hd (contents rb) = buffer rb ! ?t"
    using pos tail_lt [OF wf] by (simp add: contents_def hd_map cap16 upt_conv_Cons)
  show "result_buffer_pop (Some old) rb =
           (0, Some (hd (contents rb)), snd (snd (result_buffer_pop (Some old) rb)))"
    using ne hd by (simp add: result_buffer_pop_def)
  show "unat (count (snd (snd (result_buffer_pop (Some old) rb)))) = unat (count rb) - 1"
    using ne c1 by (simp add: result_buffer_pop_def)
  show "contents (snd (snd (result_buffer_pop (Some old) rb))) = tl (contents rb)"
  proof (rule nth_equalityI)
    show "length (contents (snd (snd (result_buffer_pop (Some old) rb)))) = length (tl (contents rb))"
      using ne c1 by (simp add: result_buffer_pop_def length_contents)
  next
    fix i assume "i < length (contents (snd (snd (result_buffer_pop (Some old) rb))))"
    then have i: "i < ?c - 1" using ne c1 by (simp add: result_buffer_pop_def length_contents)
    have idx: "((?t + 1) mod 16 + i) mod 16 = (?t + (i + 1)) mod 16"
      by (simp add: mod_add_left_eq)
    show "contents (snd (snd (result_buffer_pop (Some old) rb))) ! i = tl (contents rb) ! i"
      using i ne c1 idx
      by (simp add: result_buffer_pop_def contents_def cap16 unat_succ_mod16 nth_tl del: upt_Suc)
  qed
qed

subsection \<open>Sequences of pushes and pops\<close>

lemma push_ret: "fst (result_buffer_push (Some r) rb) = 0"
  by (simp add: result_buffer_push_def Let_def)

lemma push_contents:
  assumes wf: "ring_wf rb"
  shows "contents (snd (result_buffer_push (Some r) rb)) =
           (if unat (count rb) = 16 then tl (contents rb) else contents rb) @ [r]"
proof (cases "unat (count rb) = 16")
  case True
  then show ?thesis using push_contents_full [OF wf] by simp
next
  case False
  with wf have "unat (count rb) < 16" by (simp add: ring_wf_def ring_inv_def cap16)
  then show ?thesis using False push_contents_room [OF wf] by simp
qed

lemma push_all_wf: "ring_wf rb \<Longrightarrow> ring_wf (push_all rs rb)"
  by (induction rs arbitrary: rb) (simp_all add: push_wf)

lemma push_all_contents:
  "ring_wf rb \<Longrightarrow>
   contents (push_all rs rb) =
     drop (length (contents rb) + length rs - 16) (contents rb @ rs)"
proof (induction rs arbitrary: rb)
  case Nil
  then have "length (contents rb) \<le> 16"
    by (simp add: length_contents ring_wf_def ring_inv_def cap16)
  then show ?case by simp
next
  case (Cons r rs)
  let ?rb1 = "snd (result_buffer_push (Some r) rb)"
  have wf1: "ring_wf ?rb1" using Cons.prems by (rule push_wf)
  have ih: "contents (push_all rs ?rb1) =
      drop (length (contents ?rb1) + length rs - 16) (contents ?rb1 @ rs)"
    using wf1 by (rule Cons.IH)
  show ?case
  proof (cases "unat (count rb) = 16")
    case True
    then have len: "length (contents rb) = 16" by (simp add: length_contents)
    then have ne: "contents rb \<noteq> []" by auto
    have c1: "contents ?rb1 = tl (contents rb) @ [r]"
      using push_contents [OF Cons.prems] True by simp
    have "drop (Suc (length rs)) (contents rb @ r # rs) = drop (length rs) (tl (contents rb) @ r # rs)"
      using ne by (cases "contents rb") simp_all
    then show ?thesis using ih len by (simp add: c1)
  next
    case False
    have c1: "contents ?rb1 = contents rb @ [r]"
      using push_contents [OF Cons.prems] False by simp
    show ?thesis using ih by (simp add: c1)
  qed
qed

lemma pop_n_contents:
  "ring_wf rb \<Longrightarrow> n \<le> unat (count rb) \<Longrightarrow>
   fst (pop_n n rb) = take n (contents rb) \<and>
   contents (snd (pop_n n rb)) = drop n (contents rb) \<and>
   unat (count (snd (pop_n n rb))) = unat (count rb) - n"
proof (induction n arbitrary: rb)
  case 0
  then show ?case by simp
next
  case (Suc n)
  let ?rb1 = "snd (snd (result_buffer_pop (Some zero_result) rb))"
  from Suc.prems have ne: "count rb \<noteq> 0" by auto
  note pc = pop_contents [OF Suc.prems(1) ne, of zero_result]
  have wf1: "ring_wf ?rb1" using Suc.prems(1) by (rule pop_wf)
  have n1: "n \<le> unat (count ?rb1)" using Suc.prems(2) pc(3) by simp
  note ih = Suc.IH [OF wf1 n1]
  have cne: "contents rb \<noteq> []"
    using ne by (simp add: contents_def unat_gt_0)
  have step: "pop_n (Suc n) rb =
      (hd (contents rb) # fst (pop_n n ?rb1), snd (pop_n n ?rb1))"
    by (subst pop_n.simps, subst pc(1)) (simp add: split_def Let_def)
  have tk: "take (Suc n) (contents rb) = hd (contents rb) # take n (tl (contents rb))"
    using cne by (cases "contents rb") simp_all
  show ?case unfolding step using ih pc(2,3) tk by (simp add: drop_Suc)
qed


subsection \<open>The queue's invariant\<close>

text \<open>
  Claim C10. \<open>result_buffer_init\<close> establishes, and \<open>result_buffer_push\<close> and
  \<open>result_buffer_pop\<close> preserve, the invariant \<open>0 \<le> count \<le> capacity\<close> and
  \<open>head = (tail + count) mod capacity\<close>; \<open>result_buffer_empty\<close> is true iff
  \<open>count = 0\<close>; \<open>result_buffer_full\<close> is, under the invariant, true iff
  \<open>count = capacity\<close>; and a pop on an empty queue returns an error code
  (\<open>-EAGAIN\<close>, or \<open>-EINVAL\<close> for a \<open>NULL\<close> destination) and leaves the whole state,
  so \<open>head\<close>, \<open>tail\<close> and \<open>count\<close>, as it was.
\<close>

theorem result_buffer_invariant:
  "ring_inv (result_buffer_init rb0) \<and>
   (ring_inv rb \<longrightarrow> ring_inv (snd (result_buffer_push r rb))) \<and>
   (ring_inv rb \<longrightarrow> ring_inv (snd (snd (result_buffer_pop p rb)))) \<and>
   (result_buffer_empty rb \<longleftrightarrow> count rb = 0) \<and>
   (ring_inv rb \<longrightarrow>
      (result_buffer_full rb \<longleftrightarrow> count rb = CONFIG_OUTPUT_RING_BUFFER_SIZE)) \<and>
   (count rb = 0 \<longrightarrow>
      fst (result_buffer_pop p rb) = (if p = None then - EINVAL else - EAGAIN) \<and>
      fst (result_buffer_pop p rb) < 0 \<and>
      snd (snd (result_buffer_pop p rb)) = rb)"
proof -
  have i: "ring_inv (result_buffer_init rb0)"
    by (simp add: ring_inv_def result_buffer_init_def)
  have f: "ring_inv rb \<longrightarrow>
      (result_buffer_full rb \<longleftrightarrow> count rb = CONFIG_OUTPUT_RING_BUFFER_SIZE)"
  proof
    assume "ring_inv rb"
    then have "count rb \<le> CONFIG_OUTPUT_RING_BUFFER_SIZE"
      by (simp add: ring_inv_def word_le_nat_alt)
    then show "result_buffer_full rb \<longleftrightarrow> count rb = CONFIG_OUTPUT_RING_BUFFER_SIZE"
      by (auto simp: result_buffer_full_def)
  qed
  have e: "count rb = 0 \<longrightarrow>
      fst (result_buffer_pop p rb) = (if p = None then - EINVAL else - EAGAIN) \<and>
      fst (result_buffer_pop p rb) < 0 \<and>
      snd (snd (result_buffer_pop p rb)) = rb"
    by (cases p) (simp_all add: result_buffer_pop_def EINVAL_def EAGAIN_def)
  have p1: "ring_inv rb \<longrightarrow> ring_inv (snd (result_buffer_push r rb))"
    by (simp add: push_inv)
  have p2: "ring_inv rb \<longrightarrow> ring_inv (snd (snd (result_buffer_pop p rb)))"
    by (simp add: pop_inv)
  have em: "result_buffer_empty rb \<longleftrightarrow> count rb = 0"
    by (simp add: result_buffer_empty_def)
  from i p1 p2 em f e show ?thesis by blast
qed

text \<open>
  The theorem on the freshly initialised queue: the invariant holds there, after a
  push and after a pop of the empty queue, which fails with \<open>-EAGAIN = -11\<close>.
\<close>

theorem result_buffer_invariant_witness:
  "ring_inv (result_buffer_init \<lparr>buffer = [], head = 7, tail = 3, count = 9\<rparr>) \<and>
   count (result_buffer_init \<lparr>buffer = [], head = 7, tail = 3, count = 9\<rparr>) = 0 \<and>
   ring_inv (snd (result_buffer_push (Some zero_result)
     (result_buffer_init \<lparr>buffer = [], head = 7, tail = 3, count = 9\<rparr>))) \<and>
   result_buffer_empty (result_buffer_init \<lparr>buffer = [], head = 7, tail = 3, count = 9\<rparr>) \<and>
   \<not> result_buffer_full (result_buffer_init \<lparr>buffer = [], head = 7, tail = 3, count = 9\<rparr>) \<and>
   fst (result_buffer_pop (Some zero_result)
     (result_buffer_init \<lparr>buffer = [], head = 7, tail = 3, count = 9\<rparr>)) = - 11 \<and>
   snd (snd (result_buffer_pop (Some zero_result)
     (result_buffer_init \<lparr>buffer = [], head = 7, tail = 3, count = 9\<rparr>))) =
     result_buffer_init \<lparr>buffer = [], head = 7, tail = 3, count = 9\<rparr>"
proof -
  let ?rb = "result_buffer_init \<lparr>buffer = [], head = 7, tail = 3, count = 9\<rparr>"
  have c: "count ?rb = 0" by (simp add: result_buffer_init_def)
  have ne: "count ?rb \<noteq> CONFIG_OUTPUT_RING_BUFFER_SIZE"
    by (simp add: result_buffer_init_def CONFIG_OUTPUT_RING_BUFFER_SIZE_def)
  note t = result_buffer_invariant
    [of "\<lparr>buffer = [], head = 7, tail = 3, count = 9\<rparr>" ?rb "Some zero_result" "Some zero_result"]
  from t have inv: "ring_inv ?rb" by blast
  from t inv have "ring_inv (snd (result_buffer_push (Some zero_result) ?rb))" by blast
  moreover from t c have "result_buffer_empty ?rb" by blast
  moreover from t inv ne have "\<not> result_buffer_full ?rb" by blast
  moreover from t c have "fst (result_buffer_pop (Some zero_result) ?rb) = - 11"
    by (simp add: EAGAIN_def)
  moreover from t c have "snd (snd (result_buffer_pop (Some zero_result) ?rb)) = ?rb"
    by blast
  ultimately show ?thesis using inv c by blast
qed

subsection \<open>Eviction of the oldest entry\<close>

text \<open>
  Claim C2, as amended. Starting from an empty queue, pushing capacity + 1 = 17 results
  leaves exactly 16 entries, the first result pushed being evicted; no push rejects
  its entry (each returns 0); 16 pops then return the retained entries in FIFO
  order and leave the queue empty. The queue keeps no dropped-count: its state is the
  array and the three indices (only a warning is logged on eviction).
\<close>

theorem push_overflow_evicts_oldest:
  assumes "ring_wf rb" and "count rb = 0" and "length rs = 17"
  shows "unat (count (push_all rs rb)) = 16 \<and>
         contents (push_all rs rb) = tl rs \<and>
         fst (pop_n 16 (push_all rs rb)) = tl rs \<and>
         count (snd (pop_n 16 (push_all rs rb))) = 0 \<and>
         fst (result_buffer_push (Some r) rb') = 0"
proof -
  have c0: "contents rb = []" using assms(2) by (simp add: contents_def)
  have wf: "ring_wf (push_all rs rb)" using assms(1) by (rule push_all_wf)
  have "contents (push_all rs rb) = drop 1 rs"
    using push_all_contents [OF assms(1), of rs] assms(3) by (simp add: c0)
  then have cont: "contents (push_all rs rb) = tl rs" by (simp add: drop_Suc)
  then have cnt: "unat (count (push_all rs rb)) = 16"
    using assms(3) length_contents [of "push_all rs rb"] by simp
  have p: "fst (pop_n 16 (push_all rs rb)) = take 16 (contents (push_all rs rb)) \<and>
      contents (snd (pop_n 16 (push_all rs rb))) = drop 16 (contents (push_all rs rb)) \<and>
      unat (count (snd (pop_n 16 (push_all rs rb)))) = unat (count (push_all rs rb)) - 16"
    using wf cnt by (intro pop_n_contents) simp_all
  have "take 16 (tl rs) = tl rs" using assms(3) by simp
  with p cont cnt have "fst (pop_n 16 (push_all rs rb)) = tl rs"
    and "unat (count (snd (pop_n 16 (push_all rs rb)))) = 0" by simp_all
  then show ?thesis using cnt cont by (simp add: push_ret unat_eq_0)
qed

text \<open>
  The theorem on the initialised queue and the results numbered 1 to 17: result 1 is
  evicted and the pops return 2 to 17 in order.
\<close>

theorem push_overflow_evicts_oldest_witness:
  "ring_wf (result_buffer_init \<lparr>buffer = [], head = 0, tail = 0, count = 0\<rparr>) \<and>
   count (result_buffer_init \<lparr>buffer = [], head = 0, tail = 0, count = 0\<rparr>) = 0 \<and>
   length (map result_numbered [1..<18]) = 17 \<and>
   fst (pop_n 16 (push_all (map result_numbered [1..<18])
          (result_buffer_init \<lparr>buffer = [], head = 0, tail = 0, count = 0\<rparr>))) =
     map result_numbered [2..<18] \<and>
   count (snd (pop_n 16 (push_all (map result_numbered [1..<18])
          (result_buffer_init \<lparr>buffer = [], head = 0, tail = 0, count = 0\<rparr>)))) = 0"
proof -
  let ?rb = "result_buffer_init \<lparr>buffer = [], head = 0, tail = 0, count = 0\<rparr>"
  have wf: "ring_wf ?rb"
    by (simp add: ring_wf_def ring_inv_def result_buffer_init_def
        CONFIG_OUTPUT_RING_BUFFER_SIZE_def)
  have c: "count ?rb = 0" by (simp add: result_buffer_init_def)
  have l: "length (map result_numbered [1..<18]) = 17" by simp
  have "[1..<18] = (1::nat) # [Suc 1..<18]"
    by (rule upt_conv_Cons) simp
  then have u: "[1..<18] = (1::nat) # [2..<18]"
    by (simp only: Suc_1)
  have t: "tl (map result_numbered [1..<18]) = map result_numbered [2..<18]"
    by (simp only: u list.map list.sel)
  from push_overflow_evicts_oldest [OF wf c l, unfolded t] wf c l
  show ?thesis by blast
qed

text \<open>
  Claim C2 fails on the code in one point: there is no dropped-count. After 17 pushes
  the state is the array with \<open>head = tail = 1\<close> and \<open>count = 16\<close>, and after 32
  pushes, 16 of them evicting, the state is exactly the one after 16 pushes, none
  evicting: nothing in it counts the evictions.
\<close>

theorem push_no_dropped_count_counterexample:
  "push_all (replicate 17 zero_result)
     (result_buffer_init \<lparr>buffer = [], head = 0, tail = 0, count = 0\<rparr>) =
     \<lparr>buffer = replicate 16 zero_result, head = 1, tail = 1, count = 16\<rparr> \<and>
   push_all (replicate 32 zero_result)
     (result_buffer_init \<lparr>buffer = [], head = 0, tail = 0, count = 0\<rparr>) =
   push_all (replicate 16 zero_result)
     (result_buffer_init \<lparr>buffer = [], head = 0, tail = 0, count = 0\<rparr>)"
  by code_simp


section \<open>Properties of the windowed preprocessor\<close>

subsection \<open>The quantization loop\<close>

lemma win50: "unat CONFIG_ML_INFERENCE_WINDOW_SIZE = 50"
  by (simp add: CONFIG_ML_INFERENCE_WINDOW_SIZE_def)

lemma input150: "unat ML_INPUT_SIZE = 150"
  by (simp add: ML_INPUT_SIZE_def ML_INPUT_AXES_def CONFIG_ML_INFERENCE_WINDOW_SIZE_def)

lemma update3_take:
  assumes "n + 3 \<le> length xs"
  shows "take (n + 3) (xs[n := a, n + 1 := b, n + 2 := c]) = take n xs @ [a, b, c]"
proof (rule nth_equalityI)
  show "length (take (n + 3) (xs[n := a, n + 1 := b, n + 2 := c])) = length (take n xs @ [a, b, c])"
    using assms by simp
next
  fix i assume "i < length (take (n + 3) (xs[n := a, n + 1 := b, n + 2 := c]))"
  then have i: "i < n + 3" by simp
  consider "i < n" | "i = n" | "i = n + 1" | "i = n + 2" using i by linarith
  then show "take (n + 3) (xs[n := a, n + 1 := b, n + 2 := c]) ! i = (take n xs @ [a, b, c]) ! i"
    using assms by cases (simp_all add: nth_append)
qed

lemma update3_drop:
  "n + 3 \<le> m \<Longrightarrow> drop m (xs[n := a, n + 1 := b, n + 2 := c]) = drop m xs"
  by simp

lemma quantize_window_loop:
  "i \<le> 50 \<Longrightarrow> length w = 50 \<Longrightarrow> 150 \<le> length out \<Longrightarrow>
   quantize_window i (3 * i) w dc out =
     take (3 * i) out @ quantized_window (drop i w) dc @ drop 150 out"
proof (induction i "3 * i" w dc out rule: quantize_window.induct)
  case (1 i w dc out)
  show ?case
  proof (cases "i < 50")
    case False
    with 1 have "i = 50" by simp
    then show ?thesis using 1
      by (subst quantize_window.simps) (simp add: win50 quantized_window_def)
  next
    case True
    let ?out = "out[3 * i := quantize (sample_x (w ! i)) (dc ! 0),
                  3 * i + 1 := quantize (sample_y (w ! i)) (dc ! 1),
                  3 * i + 2 := quantize (sample_z (w ! i)) (dc ! 2)]"
    have e: "3 * (i + 1) = 3 * i + 3" by simp
    have b: "3 * i + 3 \<le> length out" using True 1 by simp
    have ih: "quantize_window (i + 1) (3 * (i + 1)) w dc ?out =
        take (3 * (i + 1)) ?out @ quantized_window (drop (i + 1) w) dc @ drop 150 ?out"
      using True 1 by (intro "1.hyps") (simp_all add: win50)
    have t: "take (3 * (i + 1)) ?out = take (3 * i) out @ quantize_sample dc (w ! i)"
      unfolding e quantize_sample_def by (rule update3_take [OF b])
    have d: "drop 150 ?out = drop 150 out"
      using True by (intro update3_drop) simp
    have w: "drop i w = w ! i # drop (i + 1) w"
      using True 1 by (simp add: Cons_nth_drop_Suc)
    have "quantize_window i (3 * i) w dc out = quantize_window (i + 1) (3 * i + 3) w dc ?out"
      using True by (subst quantize_window.simps) (simp add: win50)
    also have "\<dots> = quantize_window (i + 1) (3 * (i + 1)) w dc ?out"
      by (simp only: e)
    also note ih
    finally show ?thesis
      by (simp only: t d w quantized_window_def list.map concat.simps append_assoc)
  qed
qed

lemma quantize_window_refines:
  "length w = 50 \<Longrightarrow> 150 \<le> length out \<Longrightarrow>
   quantize_window 0 0 w dc out = quantized_window w dc @ drop 150 out"
  using quantize_window_loop [of 0 w out dc] by simp

lemma length_quantize_sample: "length (quantize_sample dc s) = 3"
  by (simp add: quantize_sample_def)

lemma length_quantized_window: "length (quantized_window w dc) = 3 * length w"
  by (induction w) (simp_all add: quantized_window_def length_quantize_sample)

lemma quantized_window_Cons:
  "quantized_window (s # w) dc = quantize_sample dc s @ quantized_window w dc"
  by (simp add: quantized_window_def)

lemma quantized_window_nth:
  "k < 3 * length w \<Longrightarrow>
   quantized_window w dc ! k = quantize (channel (k mod 3) (w ! (k div 3))) (dc ! (k mod 3))"
proof (induction w arbitrary: k)
  case Nil
  then show ?case by simp
next
  case (Cons s w)
  show ?case
  proof (cases "k < 3")
    case True
    then consider "k = 0" | "k = 1" | "k = 2" by linarith
    then show ?thesis
      by cases (simp_all add: quantized_window_def quantize_sample_def channel_def)
  next
    case False
    then have k: "k = (k - 3) + 3" by simp
    have "quantized_window (s # w) dc ! k = quantized_window w dc ! (k - 3)"
      using False
      by (simp only: quantized_window_Cons nth_append length_quantize_sample if_False)
    also have "\<dots> = quantize (channel ((k - 3) mod 3) (w ! ((k - 3) div 3))) (dc ! ((k - 3) mod 3))"
      using Cons.prems False by (intro Cons.IH) simp
    also have "(k - 3) mod 3 = k mod 3" using False by (simp add: mod_if)
    also have "w ! ((k - 3) div 3) = (s # w) ! (k div 3)"
    proof -
      have "k div 3 = Suc ((k - 3) div 3)" using False by (subst k) simp
      then show ?thesis by simp
    qed
    finally show ?thesis .
  qed
qed

subsection \<open>Saturation\<close>

lemma clamp_int8_sint:
  "sint (clamp_int8 q) = (if sint q < - 128 then - 128 else if 127 < sint q then 127 else sint q)"
  by (simp add: clamp_int8_def word_sless_alt)

lemma ucast_scast8: "(ucast q :: int8_t) = scast q" for q :: int32_t
  by (rule bit_word_eqI) (auto simp: bit_simps)

lemma narrow_in_range:
  fixes q :: int32_t
  assumes "- 128 \<le> sint q" "sint q \<le> 127"
  shows "sint (ucast q :: int8_t) = sint q"
proof -
  have "sint (ucast q :: int8_t) = sint (word_of_int (sint q) :: int8_t)"
    by (simp add: ucast_scast8)
  also have "\<dots> = signed_take_bit 7 (sint q)"
    by (simp only: sint_sbintrunc') simp
  also have "\<dots> = sint q"
    using assms by (intro signed_take_bit_int_eq_self) simp_all
  finally show ?thesis .
qed

lemma clamp_int8_narrow: "sint (ucast (clamp_int8 q) :: int8_t) = sint (clamp_int8 q)"
  by (rule narrow_in_range) (simp_all add: clamp_int8_sint)

lemma quantize_saturates:
  "sint (quantize v dc) =
     (if sint (float_to_int32 (fmul (fsub (float_of_int16 v) dc) QUANT_SCALE)) < - 128 then - 128
      else if 127 < sint (float_to_int32 (fmul (fsub (float_of_int16 v) dc) QUANT_SCALE)) then 127
      else sint (float_to_int32 (fmul (fsub (float_of_int16 v) dc) QUANT_SCALE)))"
  by (simp add: quantize_def Let_def clamp_int8_narrow clamp_int8_sint)


subsection \<open>Appending samples\<close>

lemma add_sample_step:
  assumes "initialized st" and "unat (window_pos st) < 50"
  shows "preprocessing_add_sample (Some s) st =
    (0, st\<lparr>dc_offset := dc_step (dc_offset st) s,
           sample_window := (sample_window st)[unat (window_pos st) := s],
           window_pos := (if unat (window_pos st) = 49 then 0 else window_pos st + 1),
           window_ready := (window_ready st \<or> unat (window_pos st) = 49)\<rparr>)"
proof -
  have u: "unat (window_pos st + 1) = unat (window_pos st) + 1"
    using assms(2) by (simp add: unat_word_ariths)
  have g: "(CONFIG_ML_INFERENCE_WINDOW_SIZE \<le> window_pos st + 1) = (unat (window_pos st) = 49)"
    using assms(2) by (auto simp add: word_le_nat_alt win50 u)
  show ?thesis
    using assms(1) by (auto simp add: preprocessing_add_sample_def Let_def g dc_step_def)
qed

lemma add_sample_accepts:
  "initialized st \<Longrightarrow> fst (preprocessing_add_sample (Some s) st) = 0"
  by (simp add: preprocessing_add_sample_def Let_def)

lemma add_samples_window:
  "initialized st \<Longrightarrow> length (sample_window st) = 50 \<Longrightarrow> unat (window_pos st) = p \<Longrightarrow>
   p < 50 \<Longrightarrow> p + length xs \<le> 50 \<Longrightarrow>
   sample_window (add_samples xs st) =
     take p (sample_window st) @ xs @ drop (p + length xs) (sample_window st) \<and>
   unat (window_pos (add_samples xs st)) = (p + length xs) mod 50 \<and>
   window_ready (add_samples xs st) = (window_ready st \<or> p + length xs = 50) \<and>
   dc_offset (add_samples xs st) = foldl dc_step (dc_offset st) xs \<and>
   initialized (add_samples xs st)"
proof (induction xs arbitrary: st p)
  case Nil
  then show ?case by simp
next
  case (Cons s xs)
  let ?st1 = "snd (preprocessing_add_sample (Some s) st)"
  have p: "unat (window_pos st) < 50" using Cons.prems by simp
  note step = add_sample_step [OF Cons.prems(1) p, of s]
  show ?case
  proof (cases "p = 49")
    case True
    with Cons.prems have xs: "xs = []" by simp
    show ?thesis using Cons.prems True
      by (simp add: step xs take_Suc_conv_app_nth [symmetric] upd_conv_take_nth_drop)
  next
    case False
    have u: "unat (window_pos st + 1) = p + 1"
      using Cons.prems by (simp add: unat_word_ariths)
    have i1: "initialized ?st1" and l1: "length (sample_window ?st1) = 50"
      and p1: "unat (window_pos ?st1) = p + 1"
      using Cons.prems False u by (simp_all add: step)
    have b1: "p + 1 < 50" "p + 1 + length xs \<le> 50" using Cons.prems False by simp_all
    note ih = Cons.IH [OF i1 l1 p1 b1]
    have w1: "sample_window ?st1 = (sample_window st)[p := s]"
      and r1: "window_ready ?st1 = window_ready st"
      and d1: "dc_offset ?st1 = dc_step (dc_offset st) s"
      using Cons.prems False by (simp_all add: step)
    have tk: "take (Suc p) ((sample_window st)[p := s]) = take p (sample_window st) @ [s]"
      using Cons.prems by (simp add: take_Suc_conv_app_nth)
    show ?thesis using ih Cons.prems(5)
      by (simp add: w1 r1 d1 tk del: upt_Suc)
  qed
qed

lemma foldl_dc_fixed:
  "dc_step dc s = dc \<Longrightarrow> foldl dc_step dc (replicate n s) = dc"
  by (induction n) simp_all


lemma quantized_window_replicate:
  "quantized_window (replicate n s) dc = concat (replicate n (quantize_sample dc s))"
  by (simp add: quantized_window_def)

lemma get_input_ready:
  assumes "window_ready st" and "ML_INPUT_SIZE \<le> n"
    and "length (sample_window st) = 50" and "150 \<le> length out"
  shows "preprocessing_get_input (Some out) n st =
    (0, Some (quantized_window (sample_window st) (dc_offset st) @ drop 150 out),
     st\<lparr>window_ready := False\<rparr>)"
  using assms
  by (simp add: preprocessing_get_input_def not_less [symmetric] quantize_window_refines)


subsection \<open>The scenarios, evaluated\<close>

lemma init_facts:
  "initialized (preprocessing_init st)"
  "length (sample_window (preprocessing_init st)) = 50"
  "unat (window_pos (preprocessing_init st)) = 0"
  "window_pos (preprocessing_init st) = 0"
  "dc_offset (preprocessing_init st) = [0, 0, 8192]"
  "\<not> window_ready (preprocessing_init st)"
  by (simp_all add: preprocessing_init_def win50)

lemma dc_rest: "dc_step [0, 0, 8192] rest_sample = [0, 0, 8192]"
  by code_simp

lemma dc_jolt: "dc_step [0, 0, 8192] jolt_sample = [838861 / 1024, 0, 8192]"
  by code_simp

lemma dc_extreme:
  "dc_step [0, 0, 8192] extreme_sample = [6710683 / 4096, - (838861 / 512), 8192]"
  by code_simp

lemma q_rest_rest: "quantize_sample [0, 0, 8192] rest_sample = [0, 0, 0]"
  by code_simp

lemma q_jolt_jolt: "quantize_sample [838861 / 1024, 0, 8192] jolt_sample = [120, 0, 0]"
  by code_simp

lemma q_jolt_rest: "quantize_sample [838861 / 1024, 0, 8192] rest_sample = [- 6, 0, 0]"
  by code_simp

lemma q_extreme_extreme:
  "quantize_sample [6710683 / 4096, - (838861 / 512), 8192] extreme_sample = [127, - 128, 0]"
  by code_simp

lemma q_extreme_rest:
  "quantize_sample [6710683 / 4096, - (838861 / 512), 8192] rest_sample = [- 12, 12, 0]"
  by code_simp

lemma word_unat_0: "unat w = 0 \<Longrightarrow> w = 0" for w :: size_t
  by (simp add: unat_eq_0)

lemma pending_state_eq:
  "pending_state =
     \<lparr>sample_window = replicate 50 rest_sample, window_pos = 0, window_ready = True,
      dc_offset = [0, 0, 8192], initialized = True\<rparr>"
proof -
  let ?st = "preprocessing_init preprocessing_state0"
  have "sample_window (add_samples (replicate 50 rest_sample) ?st) =
          take 0 (sample_window ?st) @ replicate 50 rest_sample @
            drop (0 + length (replicate 50 rest_sample)) (sample_window ?st) \<and>
        unat (window_pos (add_samples (replicate 50 rest_sample) ?st)) =
          (0 + length (replicate 50 rest_sample)) mod 50 \<and>
        window_ready (add_samples (replicate 50 rest_sample) ?st) =
          (window_ready ?st \<or> 0 + length (replicate 50 rest_sample) = 50) \<and>
        dc_offset (add_samples (replicate 50 rest_sample) ?st) =
          foldl dc_step (dc_offset ?st) (replicate 50 rest_sample) \<and>
        initialized (add_samples (replicate 50 rest_sample) ?st)"
    by (rule add_samples_window) (simp_all add: init_facts)
  then have "sample_window pending_state = replicate 50 rest_sample"
    and "window_pos pending_state = 0"
    and "window_ready pending_state"
    and "dc_offset pending_state = [0, 0, 8192]"
    and "initialized pending_state"
    by (simp_all add: pending_state_def init_facts foldl_dc_fixed dc_rest word_unat_0)
  then show ?thesis by (cases pending_state) simp
qed

lemma replicate50: "replicate 50 s = s # replicate 49 s"
  by (simp add: numeral_eq_Suc)

lemma jolted_state_eq:
  "snd (preprocessing_add_sample (Some jolt_sample) pending_state) =
     \<lparr>sample_window = jolt_sample # replicate 49 rest_sample, window_pos = 1,
      window_ready = True, dc_offset = [838861 / 1024, 0, 8192], initialized = True\<rparr>"
proof -
  have "snd (preprocessing_add_sample (Some jolt_sample) pending_state) =
      \<lparr>sample_window = (replicate 50 rest_sample)[0 := jolt_sample], window_pos = 1,
       window_ready = True, dc_offset = dc_step [0, 0, 8192] jolt_sample, initialized = True\<rparr>"
    by (subst add_sample_step) (simp_all add: pending_state_eq)
  also have "(replicate 50 rest_sample)[0 := jolt_sample] = jolt_sample # replicate 49 rest_sample"
    by (subst replicate50) simp
  finally show ?thesis by (simp only: dc_jolt)
qed

lemma saturating_state_eq:
  "saturating_state =
     \<lparr>sample_window = replicate 49 rest_sample @ [extreme_sample], window_pos = 0,
      window_ready = True, dc_offset = [6710683 / 4096, - (838861 / 512), 8192],
      initialized = True\<rparr>"
proof -
  let ?st = "preprocessing_init preprocessing_state0"
  let ?xs = "replicate 49 rest_sample @ [extreme_sample]"
  have "sample_window (add_samples ?xs ?st) =
          take 0 (sample_window ?st) @ ?xs @ drop (0 + length ?xs) (sample_window ?st) \<and>
        unat (window_pos (add_samples ?xs ?st)) = (0 + length ?xs) mod 50 \<and>
        window_ready (add_samples ?xs ?st) = (window_ready ?st \<or> 0 + length ?xs = 50) \<and>
        dc_offset (add_samples ?xs ?st) = foldl dc_step (dc_offset ?st) ?xs \<and>
        initialized (add_samples ?xs ?st)"
    by (rule add_samples_window) (simp_all add: init_facts)
  then have "sample_window saturating_state = ?xs"
    and "window_pos saturating_state = 0"
    and "window_ready saturating_state"
    and "dc_offset saturating_state = [6710683 / 4096, - (838861 / 512), 8192]"
    and "initialized saturating_state"
    by (simp_all add: saturating_state_def init_facts foldl_dc_fixed dc_rest dc_extreme
        word_unat_0)
  then show ?thesis by (cases saturating_state) simp
qed

lemma quantized_window_append:
  "quantized_window (xs @ ys) dc = quantized_window xs dc @ quantized_window ys dc"
  by (simp add: quantized_window_def)

lemma size150: "ML_INPUT_SIZE \<le> (150 :: size_t)"
  by (simp add: ML_INPUT_SIZE_def ML_INPUT_AXES_def CONFIG_ML_INFERENCE_WINDOW_SIZE_def)

lemma get_input_pending:
  "preprocessing_get_input (Some (replicate 150 0)) 150 pending_state =
     (0, Some (concat (replicate 50 [0, 0, 0])), pending_state\<lparr>window_ready := False\<rparr>)"
  by (subst get_input_ready)
    (simp_all add: size150 pending_state_eq quantized_window_replicate q_rest_rest
     )

lemma get_input_jolted:
  "preprocessing_get_input (Some (replicate 150 0)) 150
     (snd (preprocessing_add_sample (Some jolt_sample) pending_state)) =
     (0, Some ([120, 0, 0] @ concat (replicate 49 [- 6, 0, 0])),
      snd (preprocessing_add_sample (Some jolt_sample) pending_state)\<lparr>window_ready := False\<rparr>)"
  by (subst get_input_ready)
    (simp_all add: size150 jolted_state_eq quantized_window_replicate quantized_window_Cons
      q_jolt_jolt q_jolt_rest)

lemma get_input_saturating:
  "preprocessing_get_input (Some (replicate 150 0)) 150 saturating_state =
     (0, Some (concat (replicate 49 [- 12, 12, 0]) @ [127, - 128, 0]),
      saturating_state\<lparr>window_ready := False\<rparr>)"
  by (subst get_input_ready)
    (simp_all add: size150 saturating_state_eq quantized_window_replicate
      quantized_window_append quantized_window_Cons quantized_window_def [of "[]"]
      q_extreme_extreme q_extreme_rest)


subsection \<open>Error handling of the read\<close>

text \<open>
  Claim C6. \<open>preprocessing_get_input\<close> fails (returns a negative code) whenever no
  window is ready and whenever the declared size of the destination is below
  \<open>ML_INPUT_SIZE\<close>. The code is \<open>-ENOSPC\<close> for an undersized destination (this
  test comes first) and \<open>-EAGAIN\<close> when the size suffices and no window is ready, which
  is the case after \<open>preprocessing_init\<close> and fewer than 50 samples; a \<open>NULL\<close>
  destination gives \<open>-EINVAL\<close>. In every failure case the whole state (stored window,
  write position, ready flag) and the destination are unchanged. For a destination
  that is not \<open>NULL\<close>, it returns 0 exactly when a window is ready and the size
  suffices, and then it clears the ready flag and changes nothing else of the state.
\<close>

theorem preprocessing_get_input_errors:
  "(\<not> window_ready st \<longrightarrow> fst (preprocessing_get_input dst n st) < 0) \<and>
   (n < ML_INPUT_SIZE \<longrightarrow> fst (preprocessing_get_input dst n st) < 0) \<and>
   (dst \<noteq> None \<and> n < ML_INPUT_SIZE \<longrightarrow>
      fst (preprocessing_get_input dst n st) = - ENOSPC) \<and>
   (dst \<noteq> None \<and> ML_INPUT_SIZE \<le> n \<and> \<not> window_ready st \<longrightarrow>
      fst (preprocessing_get_input dst n st) = - EAGAIN) \<and>
   (dst \<noteq> None \<and> ML_INPUT_SIZE \<le> n \<and> length xs < 50 \<longrightarrow>
      fst (preprocessing_get_input dst n
             (add_samples xs (preprocessing_init st))) = - EAGAIN) \<and>
   (dst = None \<longrightarrow> fst (preprocessing_get_input dst n st) = - EINVAL) \<and>
   (fst (preprocessing_get_input dst n st) \<noteq> 0 \<longrightarrow>
      fst (preprocessing_get_input dst n st) < 0 \<and>
      snd (preprocessing_get_input dst n st) = (dst, st)) \<and>
   (dst \<noteq> None \<longrightarrow>
      (fst (preprocessing_get_input dst n st) = 0 \<longleftrightarrow>
         window_ready st \<and> ML_INPUT_SIZE \<le> n)) \<and>
   (fst (preprocessing_get_input dst n st) = 0 \<longrightarrow>
      snd (snd (preprocessing_get_input dst n st)) = st\<lparr>window_ready := False\<rparr>)"
proof -
  let ?st0 = "add_samples xs (preprocessing_init st)"
  have nr: "length xs < 50 \<longrightarrow> \<not> window_ready ?st0"
  proof
    assume l: "length xs < 50"
    have "window_ready ?st0 =
        (window_ready (preprocessing_init st) \<or> 0 + length xs = 50)"
      using l
      by (intro add_samples_window [THEN conjunct2, THEN conjunct2, THEN conjunct1])
        (simp_all add: preprocessing_init_def win50)
    then show "\<not> window_ready ?st0" using l by (simp add: preprocessing_init_def)
  qed
  have a: "dst \<noteq> None \<and> n < ML_INPUT_SIZE \<longrightarrow>
      fst (preprocessing_get_input dst n st) = - ENOSPC"
    by (cases dst) (simp_all add: preprocessing_get_input_def)
  have b: "dst \<noteq> None \<and> ML_INPUT_SIZE \<le> n \<and> \<not> window_ready st' \<longrightarrow>
      fst (preprocessing_get_input dst n st') = - EAGAIN" for st'
    by (cases dst) (simp_all add: preprocessing_get_input_def not_less [symmetric])
  have c: "dst = None \<longrightarrow> fst (preprocessing_get_input dst n st) = - EINVAL"
    by (simp add: preprocessing_get_input_def)
  have d: "fst (preprocessing_get_input dst n st) \<noteq> 0 \<longrightarrow>
      fst (preprocessing_get_input dst n st) < 0 \<and>
      snd (preprocessing_get_input dst n st) = (dst, st)"
    by (cases dst)
      (simp_all add: preprocessing_get_input_def EINVAL_def ENOSPC_def EAGAIN_def)
  have e: "dst \<noteq> None \<longrightarrow>
      (fst (preprocessing_get_input dst n st) = 0 \<longleftrightarrow>
         window_ready st \<and> ML_INPUT_SIZE \<le> n)"
    by (cases dst)
      (auto simp add: preprocessing_get_input_def ENOSPC_def EAGAIN_def not_less [symmetric])
  have f: "fst (preprocessing_get_input dst n st) = 0 \<longrightarrow>
      snd (snd (preprocessing_get_input dst n st)) = st\<lparr>window_ready := False\<rparr>"
    by (cases dst)
      (simp_all add: preprocessing_get_input_def EINVAL_def ENOSPC_def EAGAIN_def)
  have g: "\<not> window_ready st \<longrightarrow> fst (preprocessing_get_input dst n st) < 0"
    by (cases dst)
      (simp_all add: preprocessing_get_input_def EINVAL_def ENOSPC_def EAGAIN_def)
  have h: "n < ML_INPUT_SIZE \<longrightarrow> fst (preprocessing_get_input dst n st) < 0"
    by (cases dst)
      (simp_all add: preprocessing_get_input_def EINVAL_def ENOSPC_def EAGAIN_def)
  from g h a b [of st] b [of ?st0] nr c d e f show ?thesis by blast
qed

text \<open>
  The theorem after \<open>preprocessing_init\<close> and one sample: a read into 150 bytes fails
  with \<open>-EAGAIN = -11\<close>, a read into 10 bytes with \<open>-ENOSPC = -28\<close>, and both leave the
  state as it was.
\<close>

theorem preprocessing_get_input_errors_witness:
  "(10 :: size_t) < ML_INPUT_SIZE \<and> ML_INPUT_SIZE \<le> (150 :: size_t) \<and>
   \<not> window_ready (add_samples [rest_sample] (preprocessing_init preprocessing_state0)) \<and>
   fst (preprocessing_get_input (Some (replicate 150 0)) 10
          (add_samples [rest_sample] (preprocessing_init preprocessing_state0))) = - 28 \<and>
   fst (preprocessing_get_input (Some (replicate 150 0)) 150
          (add_samples [rest_sample] (preprocessing_init preprocessing_state0))) = - 11 \<and>
   snd (preprocessing_get_input (Some (replicate 150 0)) 150
          (add_samples [rest_sample] (preprocessing_init preprocessing_state0))) =
     (Some (replicate 150 0),
      add_samples [rest_sample] (preprocessing_init preprocessing_state0))"
proof -
  let ?st = "add_samples [rest_sample] (preprocessing_init preprocessing_state0)"
  let ?out = "Some (replicate 150 (0 :: int8_t))"
  have s: "(10 :: size_t) < ML_INPUT_SIZE" "ML_INPUT_SIZE \<le> (150 :: size_t)"
    by (simp_all add: ML_INPUT_SIZE_def ML_INPUT_AXES_def CONFIG_ML_INFERENCE_WINDOW_SIZE_def)
  have l: "length [rest_sample] < 50" by simp
  note t1 = preprocessing_get_input_errors
    [where dst = ?out and n = 10 and st = ?st and xs = "[]"]
  note t2 = preprocessing_get_input_errors
    [where dst = ?out and n = 150 and st = preprocessing_state0 and xs = "[rest_sample]"]
  note t3 = preprocessing_get_input_errors
    [where dst = ?out and n = 150 and st = ?st and xs = "[]"]
  from t1 s have r1: "fst (preprocessing_get_input ?out 10 ?st) = - 28"
    by (simp add: ENOSPC_def)
  from t2 s l have r2: "fst (preprocessing_get_input ?out 150 ?st) = - 11"
    by (simp add: EAGAIN_def)
  from t3 r2 s have nr: "\<not> window_ready ?st" by simp
  from t3 r2 have r3: "snd (preprocessing_get_input ?out 150 ?st) = (?out, ?st)" by simp
  from s r1 r2 nr r3 show ?thesis by blast
qed

subsection \<open>Quantization and saturation\<close>

text \<open>
  Claim C7. Every value that a successful \<open>preprocessing_get_input\<close> writes is the
  quantization of one stored channel value: the per-channel DC-offset estimate is
  subtracted from the sample, the difference is multiplied by \<open>QUANT_SCALE\<close> and
  truncated to a 32-bit integer \<open>v\<close>, and the emitted \<open>int8_t\<close> is \<open>v\<close> saturated:
  \<open>-128\<close> when \<open>v < -128\<close>, \<open>127\<close> when \<open>v > 127\<close>, and \<open>v\<close> itself otherwise. It lies in
  \<open>[-128, 127]\<close> and the narrowing cast never wraps.
\<close>

theorem preprocessing_get_input_saturates:
  assumes "preprocessing_get_input (Some out) n st = (0, Some res, st')"
    and "length (sample_window st) = 50" and "150 \<le> length out" and "k < 150"
  shows "res ! k =
           quantize (channel (k mod 3) (sample_window st ! (k div 3)))
             (dc_offset st ! (k mod 3)) \<and>
         - 128 \<le> sint (res ! k) \<and> sint (res ! k) \<le> 127 \<and>
         sint (res ! k) =
           max (- 128) (min 127
             (sint (float_to_int32
                (fmul (fsub (float_of_int16 (channel (k mod 3) (sample_window st ! (k div 3))))
                         (dc_offset st ! (k mod 3)))
                   QUANT_SCALE))))"
proof -
  from assms(1) have rdy: "window_ready st" and sz: "ML_INPUT_SIZE \<le> n"
    by (auto simp add: preprocessing_get_input_def ENOSPC_def EAGAIN_def not_less [symmetric]
        split: if_splits)
  from assms(1) get_input_ready [OF rdy sz assms(2,3)]
  have res: "res = quantized_window (sample_window st) (dc_offset st) @ drop 150 out"
    by simp
  have "res ! k = quantized_window (sample_window st) (dc_offset st) ! k"
    using assms(2,4) by (simp add: res nth_append length_quantized_window)
  also have "\<dots> = quantize (channel (k mod 3) (sample_window st ! (k div 3)))
             (dc_offset st ! (k mod 3))"
    using assms(2,4) by (intro quantized_window_nth) simp
  finally have q: "res ! k = quantize (channel (k mod 3) (sample_window st ! (k div 3)))
             (dc_offset st ! (k mod 3))" .
  show ?thesis
    unfolding q by (simp add: quantize_saturates)
qed


text \<open>
  The theorem on the saturating scenario: the last triple of the buffer comes from the
  extreme sample; its X value scales to 241 and is emitted as 127.
\<close>

theorem preprocessing_get_input_saturates_witness:
  "preprocessing_get_input (Some (replicate 150 0)) 150 saturating_state =
     (0, Some (concat (replicate 49 [- 12, 12, 0]) @ [127, - 128, 0]),
      saturating_state\<lparr>window_ready := False\<rparr>) \<and>
   length (sample_window saturating_state) = 50 \<and>
   150 \<le> length (replicate 150 (0 :: int8_t)) \<and>
   (concat (replicate 49 [- 12, 12, 0]) @ [127, - 128, 0]) ! 147 =
     quantize (channel (147 mod 3) (sample_window saturating_state ! (147 div 3)))
       (dc_offset saturating_state ! (147 mod 3)) \<and>
   sint ((concat (replicate 49 [- 12, 12, 0]) @ [127, - 128, 0 :: int8_t]) ! 147) \<le> 127"
proof -
  have l: "length (sample_window saturating_state) = 50"
    by (simp add: saturating_state_eq)
  have o: "150 \<le> length (replicate 150 (0 :: int8_t))" by simp
  have k: "(147 :: nat) < 150" by simp
  from preprocessing_get_input_saturates [OF get_input_saturating l o k]
  show ?thesis using get_input_saturating l o by blast
qed

subsection \<open>A pending window and later samples\<close>

text \<open>
  Claim C1 fails on the code. In the slow-consumer scenario the window of 50 samples
  at rest is ready and unread; read at once it gives the all-zero buffer. The next
  sample is not rejected (\<open>preprocessing_add_sample\<close> returns 0) and is stored in slot 0
  of the one window array, over the first sample of the pending window, and it moves
  the DC estimate; the buffer read afterwards starts with 120 and has -6 in every
  other X position.
\<close>

theorem pending_window_overwritten_counterexample:
  "window_ready pending_state \<and>
   sample_window pending_state = replicate 50 rest_sample \<and>
   fst (snd (preprocessing_get_input (Some (replicate 150 0)) 150 pending_state)) =
     Some (concat (replicate 50 [0, 0, 0])) \<and>
   fst (preprocessing_add_sample (Some jolt_sample) pending_state) = 0 \<and>
   sample_window (snd (preprocessing_add_sample (Some jolt_sample) pending_state)) =
     jolt_sample # replicate 49 rest_sample \<and>
   fst (snd (preprocessing_get_input (Some (replicate 150 0)) 150
               (snd (preprocessing_add_sample (Some jolt_sample) pending_state)))) =
     Some ([120, 0, 0] @ concat (replicate 49 [- 6, 0, 0]))"
proof -
  have a: "window_ready pending_state"
    and b: "sample_window pending_state = replicate 50 rest_sample"
    by (simp_all add: pending_state_eq)
  have c: "fst (snd (preprocessing_get_input (Some (replicate 150 0)) 150 pending_state)) =
      Some (concat (replicate 50 [0, 0, 0]))"
    by (simp only: get_input_pending fst_conv snd_conv)
  have d: "fst (preprocessing_add_sample (Some jolt_sample) pending_state) = 0"
    by (rule add_sample_accepts) (simp add: pending_state_eq)
  have e: "sample_window (snd (preprocessing_add_sample (Some jolt_sample) pending_state)) =
      jolt_sample # replicate 49 rest_sample"
    by (simp only: jolted_state_eq) simp
  have f: "fst (snd (preprocessing_get_input (Some (replicate 150 0)) 150
               (snd (preprocessing_add_sample (Some jolt_sample) pending_state)))) =
      Some ([120, 0, 0] @ concat (replicate 49 [- 6, 0, 0]))"
    by (simp only: get_input_jolted fst_conv snd_conv)
  from a b c d e f show ?thesis by blast
qed

text \<open>
  Claim C1, as amended. There is one window buffer and appends are never rejected:
  on an initialised preprocessor \<open>preprocessing_add_sample\<close> returns 0, stores the
  sample at the write position of that buffer and updates the DC estimate, whether or
  not a window is pending, and a pending window stays ready. After the 50 samples
  \<open>xs\<close> that complete a window, a read at once returns the quantization of exactly
  \<open>xs\<close>. When \<open>k \<le> 50\<close> further samples \<open>ys\<close> are appended before the read, the read
  returns the quantization of \<open>ys\<close> followed by the last \<open>50 - k\<close> samples of \<open>xs\<close>,
  under the DC estimate that has absorbed \<open>ys\<close> too.
\<close>

theorem pending_window_single_buffer:
  assumes "initialized st" and "window_pos st = 0" and "length (sample_window st) = 50"
    and "length xs = 50" and "length ys \<le> 50"
    and "150 \<le> length out" and "ML_INPUT_SIZE \<le> n"
  shows "window_ready (add_samples xs st) \<and>
         sample_window (add_samples xs st) = xs \<and>
         preprocessing_get_input (Some out) n (add_samples xs st) =
           (0, Some (quantized_window xs (dc_offset (add_samples xs st)) @ drop 150 out),
            (add_samples xs st)\<lparr>window_ready := False\<rparr>) \<and>
         window_ready (add_samples ys (add_samples xs st)) \<and>
         sample_window (add_samples ys (add_samples xs st)) = ys @ drop (length ys) xs \<and>
         dc_offset (add_samples ys (add_samples xs st)) =
           foldl dc_step (dc_offset (add_samples xs st)) ys \<and>
         preprocessing_get_input (Some out) n (add_samples ys (add_samples xs st)) =
           (0, Some (quantized_window (ys @ drop (length ys) xs)
                       (dc_offset (add_samples ys (add_samples xs st))) @ drop 150 out),
            (add_samples ys (add_samples xs st))\<lparr>window_ready := False\<rparr>) \<and>
         fst (preprocessing_add_sample (Some s) (add_samples ys (add_samples xs st))) = 0 \<and>
         sample_window
             (snd (preprocessing_add_sample (Some s) (add_samples ys (add_samples xs st)))) =
           (sample_window (add_samples ys (add_samples xs st)))
             [unat (window_pos (add_samples ys (add_samples xs st))) := s] \<and>
         (initialized st' \<longrightarrow>
            fst (preprocessing_add_sample (Some s) st') = 0 \<and>
            sample_window (snd (preprocessing_add_sample (Some s) st')) =
              (sample_window st')[unat (window_pos st') := s] \<and>
            dc_offset (snd (preprocessing_add_sample (Some s) st')) =
              dc_step (dc_offset st') s \<and>
            (window_ready st' \<longrightarrow>
               window_ready (snd (preprocessing_add_sample (Some s) st'))))"
proof -
  let ?st1 = "add_samples xs st" and ?st2 = "add_samples ys (add_samples xs st)"
  have p0: "unat (window_pos st) = 0" using assms(2) by simp
  have a1: "sample_window ?st1 =
        take 0 (sample_window st) @ xs @ drop (0 + length xs) (sample_window st) \<and>
      unat (window_pos ?st1) = (0 + length xs) mod 50 \<and>
      window_ready ?st1 = (window_ready st \<or> 0 + length xs = 50) \<and>
      dc_offset ?st1 = foldl dc_step (dc_offset st) xs \<and> initialized ?st1"
    using assms(1,3,4) p0 by (intro add_samples_window) simp_all
  then have w1: "sample_window ?st1 = xs" and r1: "window_ready ?st1"
    and i1: "initialized ?st1" and p1: "unat (window_pos ?st1) = 0"
    using assms(3,4) by simp_all
  have l1: "length (sample_window ?st1) = 50" using w1 assms(4) by simp
  have a2: "sample_window ?st2 =
        take 0 (sample_window ?st1) @ ys @ drop (0 + length ys) (sample_window ?st1) \<and>
      unat (window_pos ?st2) = (0 + length ys) mod 50 \<and>
      window_ready ?st2 = (window_ready ?st1 \<or> 0 + length ys = 50) \<and>
      dc_offset ?st2 = foldl dc_step (dc_offset ?st1) ys \<and> initialized ?st2"
    using i1 l1 p1 assms(5) by (intro add_samples_window) simp_all
  then have w2: "sample_window ?st2 = ys @ drop (length ys) xs" and r2: "window_ready ?st2"
    and i2: "initialized ?st2" and d2: "dc_offset ?st2 = foldl dc_step (dc_offset ?st1) ys"
    and p2: "unat (window_pos ?st2) = length ys mod 50"
    using w1 r1 by simp_all
  have l2: "length (sample_window ?st2) = 50" using w2 assms(4,5) by simp
  have g1: "preprocessing_get_input (Some out) n ?st1 =
      (0, Some (quantized_window xs (dc_offset ?st1) @ drop 150 out),
       ?st1\<lparr>window_ready := False\<rparr>)"
    using get_input_ready [OF r1 assms(7) l1 assms(6)] by (simp only: w1)
  have g2: "preprocessing_get_input (Some out) n ?st2 =
      (0, Some (quantized_window (ys @ drop (length ys) xs) (dc_offset ?st2) @ drop 150 out),
       ?st2\<lparr>window_ready := False\<rparr>)"
    using get_input_ready [OF r2 assms(7) l2 assms(6)] by (simp only: w2)
  have lt: "unat (window_pos ?st2) < 50" using p2 by simp
  have s2: "fst (preprocessing_add_sample (Some s) ?st2) = 0"
    using i2 by (rule add_sample_accepts)
  have s3: "sample_window (snd (preprocessing_add_sample (Some s) ?st2)) =
      (sample_window ?st2)[unat (window_pos ?st2) := s]"
    by (simp add: add_sample_step [OF i2 lt])
  have s4: "initialized st' \<longrightarrow>
      fst (preprocessing_add_sample (Some s) st') = 0 \<and>
      sample_window (snd (preprocessing_add_sample (Some s) st')) =
        (sample_window st')[unat (window_pos st') := s] \<and>
      dc_offset (snd (preprocessing_add_sample (Some s) st')) = dc_step (dc_offset st') s \<and>
      (window_ready st' \<longrightarrow> window_ready (snd (preprocessing_add_sample (Some s) st')))"
    by (simp add: preprocessing_add_sample_def Let_def dc_step_def)
  from w1 r1 g1 r2 w2 d2 g2 s2 s3 s4 show ?thesis by blast
qed

text \<open>
  The theorem on the slow-consumer scenario: \<open>xs\<close> the 50 samples at rest, \<open>ys\<close> the
  one jolt.
\<close>

theorem pending_window_single_buffer_witness:
  "initialized (preprocessing_init preprocessing_state0) \<and>
   window_pos (preprocessing_init preprocessing_state0) = 0 \<and>
   length (sample_window (preprocessing_init preprocessing_state0)) = 50 \<and>
   length (replicate 50 rest_sample) = 50 \<and> length [jolt_sample] \<le> 50 \<and>
   150 \<le> length (replicate 150 (0 :: int8_t)) \<and> ML_INPUT_SIZE \<le> (150 :: size_t) \<and>
   initialized pending_state \<and> window_ready pending_state \<and>
   fst (preprocessing_add_sample (Some jolt_sample) pending_state) = 0 \<and>
   window_ready (snd (preprocessing_add_sample (Some jolt_sample) pending_state)) \<and>
   sample_window (add_samples [jolt_sample] pending_state) =
     jolt_sample # replicate 49 rest_sample \<and>
   fst (preprocessing_get_input (Some (replicate 150 0)) 150
          (add_samples [jolt_sample] pending_state)) = 0"
proof -
  let ?st = "preprocessing_init preprocessing_state0"
  have h: "initialized ?st" "window_pos ?st = 0" "length (sample_window ?st) = 50"
    "length (replicate 50 rest_sample) = 50" "length [jolt_sample] \<le> 50"
    "150 \<le> length (replicate 150 (0 :: int8_t))" "ML_INPUT_SIZE \<le> (150 :: size_t)"
    by (simp_all add: init_facts size150)
  have i: "initialized pending_state" by (simp add: pending_state_eq)
  have d: "drop (length [jolt_sample]) (replicate 50 rest_sample) = replicate 49 rest_sample"
    by simp
  note t = pending_window_single_buffer
    [OF h, where s = jolt_sample and st' = pending_state, folded pending_state_def,
      unfolded d]
  from t have r: "window_ready pending_state"
    and "sample_window (add_samples [jolt_sample] pending_state) =
           jolt_sample # replicate 49 rest_sample"
    and "fst (preprocessing_get_input (Some (replicate 150 0)) 150
          (add_samples [jolt_sample] pending_state)) = 0"
    by simp_all
  moreover from t i r
  have "fst (preprocessing_add_sample (Some jolt_sample) pending_state) = 0"
    and "window_ready (snd (preprocessing_add_sample (Some jolt_sample) pending_state))"
    by blast+
  ultimately show ?thesis using h i by blast
qed


section \<open>Properties of the inference wrapper\<close>

lemma run_cases:
  "ml_run_inference env inp res st = (status, res', st') \<Longrightarrow>
   (status = ML_STATUS_OK \<longrightarrow>
      (\<exists>r. res' = Some r \<and> sequence r = inference_sequence st + 1) \<and>
      inference_sequence st' = inference_sequence st + 1) \<and>
   (status \<noteq> ML_STATUS_OK \<longrightarrow> res' = res \<and> inference_sequence st' = inference_sequence st)"
  by (cases inp; cases res)
    (auto simp add: ml_run_inference_def Let_def split_def split: if_splits)

lemma init_sequence:
  "\<not> ml_initialized st \<Longrightarrow> inference_sequence st = 0 \<Longrightarrow>
   inference_sequence (snd (ml_inference_init lib st)) = 0"
  by (simp add: ml_inference_init_def)

lemma init_ok_initialized:
  "fst (ml_inference_init lib st) = ML_STATUS_OK \<Longrightarrow> ml_initialized (snd (ml_inference_init lib st))"
  by (simp add: ml_inference_init_def split: if_splits)

lemma upt_shift: "map (\<lambda>k. f (Suc k)) [1..<Suc n] = map f [2..<Suc (Suc n)]"
proof -
  have "[2..<Suc (Suc n)] = map Suc [1..<Suc n]"
    by (simp only: map_Suc_upt Suc_1 [symmetric])
  then show ?thesis by (simp add: comp_def)
qed

lemma run_inferences_sequences:
  "map sequence (fst (run_inferences calls st)) =
     map (\<lambda>k. inference_sequence st + of_nat k) [1..<Suc (length (fst (run_inferences calls st)))] \<and>
   inference_sequence (snd (run_inferences calls st)) =
     inference_sequence st + of_nat (length (fst (run_inferences calls st)))"
proof (induction calls arbitrary: st)
  case Nil
  then show ?case by simp
next
  case (Cons c calls)
  obtain env inp where c: "c = (env, inp)" by (cases c)
  obtain status res' st' where r: "ml_run_inference env inp (Some zero_result) st = (status, res', st')"
    by (cases "ml_run_inference env inp (Some zero_result) st")
  note rc = run_cases [OF r]
  note ih = Cons.IH [of st']
  show ?case
  proof (cases "status = ML_STATUS_OK")
    case True
    with rc obtain r0 where r0: "res' = Some r0" "sequence r0 = inference_sequence st + 1"
      and s': "inference_sequence st' = inference_sequence st + 1" by blast
    let ?n = "length (fst (run_inferences calls st'))"
    have run: "run_inferences (c # calls) st =
        (r0 # fst (run_inferences calls st'), snd (run_inferences calls st'))"
      by (simp add: c r r0 True)
    have "1 < Suc (Suc ?n)" by simp
    from upt_conv_Cons [OF this] have u: "[1..<Suc (Suc ?n)] = 1 # [2..<Suc (Suc ?n)]"
      by (simp only: Suc_1)
    have "map (\<lambda>k. inference_sequence st + of_nat k) [1..<Suc (Suc ?n)] =
        (inference_sequence st + 1) # map (\<lambda>k. inference_sequence st + of_nat k) [2..<Suc (Suc ?n)]"
      by (simp only: u list.map of_nat_1)
    also have "map (\<lambda>k. inference_sequence st + of_nat k) [2..<Suc (Suc ?n)] =
        map (\<lambda>k. inference_sequence st' + of_nat k) [1..<Suc ?n]"
      by (simp only: upt_shift [symmetric] s') (simp add: add.assoc)
    finally show ?thesis using ih r0 s' by (simp add: run add.assoc)
  next
    case False
    with rc have s': "inference_sequence st' = inference_sequence st" and "res' = Some zero_result"
      by simp_all
    then have run: "run_inferences (c # calls) st = run_inferences calls st'"
      using False by (simp add: c r)
    show ?thesis using ih by (simp add: run s')
  qed
qed

lemma increasing_no_wrap:
  fixes s :: uint32_t
  assumes "unat s + n < 2 ^ 32"
  shows "sorted_wrt (<) (map (\<lambda>k. unat (s + of_nat k)) [1..<Suc n])"
proof -
  have step: "unat (s + of_nat k) = unat s + k" if "k \<in> set [1..<Suc n]" for k
  proof -
    from that have k: "k \<le> n" by auto
    then have "unat (of_nat k :: uint32_t) = k"
      using assms by (simp add: unat_of_nat take_bit_nat_eq_self)
    then show ?thesis
      using assms k by (simp add: unat_word_ariths)
  qed
  have eq: "map (\<lambda>k. unat (s + of_nat k)) [1..<Suc n] = map (\<lambda>k. unat s + k) [1..<Suc n]"
    by (rule map_cong [OF refl]) (rule step)
  have "sorted_wrt (<) (map (\<lambda>k. unat s + k) [1..<Suc n])"
    by (simp add: sorted_wrt_map del: upt_Suc)
  then show ?thesis by (simp only: eq)
qed


subsection \<open>Sequence numbers\<close>

text \<open>
  Claim C8 fails on the code at one point: the counter is a \<open>uint32_t\<close> and wraps. From
  a state whose counter is \<open>2^32 - 2\<close>, two successful inferences produce the sequence
  numbers \<open>2^32 - 1\<close> and then 0, which is neither one greater nor increasing.
\<close>

theorem sequence_wraps_counterexample:
  "map sequence (fst (run_inferences [mock_call, mock_call] late_state)) = [0xFFFFFFFF, 0]"
  by code_simp

text \<open>
  Claim C8, as amended. Every successful \<open>ml_run_inference\<close> gives its result the
  sequence number of the previous successful result plus one modulo \<open>2^32\<close>, and a
  failed call leaves the counter alone; the counter is 0 after \<open>ml_inference_init\<close> on
  the initial state, so the first successful result has number 1. Over any run of
  calls the successful results carry the numbers \<open>c + 1, c + 2, ...\<close> (modulo \<open>2^32\<close>)
  for the counter \<open>c\<close> at its start, and these are strictly increasing as long as the
  counter does not pass \<open>2^32 - 1\<close>.
\<close>

theorem inference_sequence_numbers:
  "(fst (ml_run_inference env inp res st) = ML_STATUS_OK \<longrightarrow>
      map_option sequence (fst (snd (ml_run_inference env inp res st))) =
        Some (inference_sequence st + 1) \<and>
      inference_sequence (snd (snd (ml_run_inference env inp res st))) =
        inference_sequence st + 1) \<and>
   (fst (ml_run_inference env inp res st) \<noteq> ML_STATUS_OK \<longrightarrow>
      inference_sequence (snd (snd (ml_run_inference env inp res st))) =
        inference_sequence st) \<and>
   inference_sequence (snd (ml_inference_init lib ml_state0)) = 0 \<and>
   map sequence (fst (run_inferences calls st)) =
     map (\<lambda>k. inference_sequence st + of_nat k)
       [1..<Suc (length (fst (run_inferences calls st)))] \<and>
   (unat (inference_sequence st) + length (fst (run_inferences calls st)) < 2 ^ 32 \<longrightarrow>
      sorted_wrt (<) (map (\<lambda>r. unat (sequence r)) (fst (run_inferences calls st))))"
proof -
  obtain status res' st' where r: "ml_run_inference env inp res st = (status, res', st')"
    by (cases "ml_run_inference env inp res st")
  note rc = run_cases [OF r]
  have a: "fst (ml_run_inference env inp res st) = ML_STATUS_OK \<longrightarrow>
      map_option sequence (fst (snd (ml_run_inference env inp res st))) =
        Some (inference_sequence st + 1) \<and>
      inference_sequence (snd (snd (ml_run_inference env inp res st))) =
        inference_sequence st + 1"
    using rc by (auto simp add: r)
  have b: "fst (ml_run_inference env inp res st) \<noteq> ML_STATUS_OK \<longrightarrow>
      inference_sequence (snd (snd (ml_run_inference env inp res st))) =
        inference_sequence st"
    using rc by (simp add: r)
  have c: "inference_sequence (snd (ml_inference_init lib ml_state0)) = 0"
    by (rule init_sequence) (simp_all add: ml_state0_def)
  let ?rs = "fst (run_inferences calls st)"
  have d: "map sequence ?rs =
      map (\<lambda>k. inference_sequence st + of_nat k) [1..<Suc (length ?rs)]"
    using run_inferences_sequences [of calls st] by blast
  have e: "unat (inference_sequence st) + length ?rs < 2 ^ 32 \<longrightarrow>
      sorted_wrt (<) (map (\<lambda>r. unat (sequence r)) ?rs)"
  proof
    assume "unat (inference_sequence st) + length ?rs < 2 ^ 32"
    then have "sorted_wrt (<)
        (map (\<lambda>k. unat (inference_sequence st + of_nat k)) [1..<Suc (length ?rs)])"
      by (rule increasing_no_wrap)
    moreover have "map (\<lambda>r. unat (sequence r)) ?rs = map unat (map sequence ?rs)"
      by (simp add: comp_def)
    ultimately show "sorted_wrt (<) (map (\<lambda>r. unat (sequence r)) ?rs)"
      by (simp only: d) (simp add: comp_def del: upt_Suc)
  qed
  from a b c d e show ?thesis by blast
qed

text \<open>
  The theorem after an initialisation that falls back to the mock path: a successful
  call, a call with a null input, which fails, and another successful call give the
  sequence numbers 1 and 2.
\<close>

theorem inference_sequence_numbers_witness:
  "fst (ml_run_inference (fst mock_call) (snd mock_call) (Some zero_result)
          (snd (ml_inference_init failed_lib ml_state0))) = ML_STATUS_OK \<and>
   fst (ml_run_inference (fst mock_call) None (Some zero_result)
          (snd (ml_inference_init failed_lib ml_state0))) \<noteq> ML_STATUS_OK \<and>
   inference_sequence (snd (snd (ml_run_inference (fst mock_call) None (Some zero_result)
          (snd (ml_inference_init failed_lib ml_state0))))) = 0 \<and>
   map sequence (fst (run_inferences [mock_call, (fst mock_call, None), mock_call]
          (snd (ml_inference_init failed_lib ml_state0)))) = [1, 2] \<and>
   unat (inference_sequence (snd (ml_inference_init failed_lib ml_state0))) +
     length (fst (run_inferences [mock_call, (fst mock_call, None), mock_call]
          (snd (ml_inference_init failed_lib ml_state0)))) < 2 ^ 32 \<and>
   sorted_wrt (<) (map (\<lambda>r. unat (sequence r))
     (fst (run_inferences [mock_call, (fst mock_call, None), mock_call]
          (snd (ml_inference_init failed_lib ml_state0)))))"
proof -
  let ?st = "snd (ml_inference_init failed_lib ml_state0)"
  let ?calls = "[mock_call, (fst mock_call, None), mock_call]"
  have ok: "fst (ml_run_inference (fst mock_call) (snd mock_call) (Some zero_result) ?st) =
      ML_STATUS_OK"
    by code_simp
  have bad: "fst (ml_run_inference (fst mock_call) None (Some zero_result) ?st) \<noteq>
      ML_STATUS_OK"
    by code_simp
  have len: "length (fst (run_inferences ?calls ?st)) = 2"
    by code_simp
  note t1 = inference_sequence_numbers
    [where env = "fst mock_call" and inp = None and res = "Some zero_result"
       and st = ?st and lib = failed_lib and calls = ?calls]
  from t1 have z: "inference_sequence ?st = 0" by blast
  from t1 bad z have f: "inference_sequence
      (snd (snd (ml_run_inference (fst mock_call) None (Some zero_result) ?st))) = 0"
    by simp
  have n: "unat (inference_sequence ?st) + length (fst (run_inferences ?calls ?st)) < 2 ^ 32"
    by (simp add: z len)
  from t1 n have s: "sorted_wrt (<) (map (\<lambda>r. unat (sequence r))
      (fst (run_inferences ?calls ?st)))"
    by blast
  have "[1..<Suc 2] = [1, 2]" by (simp add: upt_conv_Cons)
  with t1 have m: "map sequence (fst (run_inferences ?calls ?st)) = [1, 2]"
    by (simp add: z len)
  from ok bad f m n s show ?thesis by blast
qed


section \<open>Properties of the resource monitor\<close>

lemma stats_probe_state:
  "snd (stats_probe env i (s, st)) =
     st\<lparr>monitored := (monitored st)[i := probe_entry env (monitored st ! i)]\<rparr>"
  by (cases "thread (monitored st ! i)")
    (auto simp add: stats_probe_def probe_entry_def stack_usage_def split_def Let_def)

lemma fold_probe_state:
  "snd (fold (stats_probe env) js (s, st)) =
     st\<lparr>monitored := fold (\<lambda>i xs. xs[i := probe_entry env (xs ! i)]) js (monitored st)\<rparr>"
proof (induction js arbitrary: s st)
  case Nil
  then show ?case by simp
next
  case (Cons j js)
  obtain s1 st1 where p: "stats_probe env j (s, st) = (s1, st1)"
    by (cases "stats_probe env j (s, st)")
  have st1: "st1 = st\<lparr>monitored := (monitored st)[j := probe_entry env (monitored st ! j)]\<rparr>"
    using stats_probe_state [of env j s st] by (simp add: p)
  show ?case by (simp add: p Cons.IH) (simp add: st1)
qed

lemma probe_all_nth:
  "length (fold (\<lambda>i xs. xs[i := probe_entry env (xs ! i)]) [0..<n] ms) = length ms \<and>
   (\<forall>j < length ms.
      fold (\<lambda>i xs. xs[i := probe_entry env (xs ! i)]) [0..<n] ms ! j =
        (if j < n then probe_entry env (ms ! j) else ms ! j))"
proof (induction n)
  case 0
  then show ?case by simp
next
  case (Suc n)
  let ?f = "\<lambda>i xs. xs[i := probe_entry env (xs ! i)]"
  let ?xs = "fold ?f [0..<n] ms"
  have step: "fold ?f [0..<Suc n] ms = ?xs[n := probe_entry env (?xs ! n)]"
    by simp
  from Suc have len: "length ?xs = length ms"
    and nth: "\<And>j. j < length ms \<Longrightarrow>
      ?xs ! j = (if j < n then probe_entry env (ms ! j) else ms ! j)"
    by blast+
  have "fold ?f [0..<Suc n] ms ! j =
      (if j < Suc n then probe_entry env (ms ! j) else ms ! j)" if j: "j < length ms" for j
  proof (cases "j = n")
    case True
    then show ?thesis using j len nth [of n] by (simp only: step) simp
  next
    case False
    then show ?thesis using j len nth [of j] by (simp only: step) auto
  qed
  then show ?case using len by (simp only: step) simp
qed

lemma probe_entry_frame:
  "thread (probe_entry env m) = thread m"
  "name (probe_entry env m) = name m"
  "thread_stack_size (probe_entry env m) = thread_stack_size m"
  "peak_usage m \<le> peak_usage (probe_entry env m)"
  by (auto simp add: probe_entry_def less_imp_le split: option.split)

lemma probe_entry_peak:
  "thread m = Some t \<Longrightarrow> CONFIG_THREAD_STACK_INFO env \<Longrightarrow>
   fst (k_thread_stack_space_get env t) = 0 \<Longrightarrow>
   peak_usage (probe_entry env m) = max (peak_usage m) (stack_usage env t)"
  by (auto simp add: probe_entry_def max_def)

lemma cpu_usage_frame:
  "monitored (snd (cpu_usage env p)) = monitored (snd p)"
  "monitored_count (snd (cpu_usage env p)) = monitored_count (snd p)"
  "total_stack_warnings (snd (cpu_usage env p)) = total_stack_warnings (snd p)"
  "monitor_initialized (snd (cpu_usage env p)) = monitor_initialized (snd p)"
  "\<not> CONFIG_SCHED_THREAD_USAGE env \<Longrightarrow> snd (cpu_usage env p) = snd p"
  by (simp_all add: cpu_usage_def split_def Let_def)

lemma fold_probe_state':
  "snd (fold (stats_probe env) js p) =
     (snd p)\<lparr>monitored := fold (\<lambda>i xs. xs[i := probe_entry env (xs ! i)]) js (monitored (snd p))\<rparr>"
  using fold_probe_state [of env js "fst p" "snd p"] by simp

lemma get_stats_None: "debug_monitor_get_stats env None st = (- EINVAL, None, st)"
  by (simp add: debug_monitor_get_stats_def)

lemma get_stats_Some:
  "fst (debug_monitor_get_stats env (Some s0) st) = 0"
  "monitored (snd (snd (debug_monitor_get_stats env (Some s0) st))) =
     fold (\<lambda>i xs. xs[i := probe_entry env (xs ! i)]) [0..<nat (monitored_count st)] (monitored st)"
  "monitored_count (snd (snd (debug_monitor_get_stats env (Some s0) st))) = monitored_count st"
  "total_stack_warnings (snd (snd (debug_monitor_get_stats env (Some s0) st))) =
     total_stack_warnings st"
  "monitor_initialized (snd (snd (debug_monitor_get_stats env (Some s0) st))) =
     monitor_initialized st"
  "map_option stack_warnings (fst (snd (debug_monitor_get_stats env (Some s0) st))) =
     Some (total_stack_warnings st)"
  by (simp_all add: debug_monitor_get_stats_def Let_def split_def cpu_usage_frame
      fold_probe_state')

lemma get_stats_no_usage:
  "\<not> CONFIG_SCHED_THREAD_USAGE env \<Longrightarrow>
   last_check_time (snd (snd (debug_monitor_get_stats env stats st))) = last_check_time st \<and>
   last_cpu_cycles (snd (snd (debug_monitor_get_stats env stats st))) = last_cpu_cycles st"
  by (cases stats)
    (simp_all add: debug_monitor_get_stats_def Let_def split_def cpu_usage_frame
      fold_probe_state')

lemma check_thread_fold:
  "fold (check_thread env) js (k, st) =
     (k + int (length (filter (over_threshold env st) js)),
      st\<lparr>total_stack_warnings :=
           total_stack_warnings st + of_nat (length (filter (over_threshold env st) js))\<rparr>)"
proof (induction js arbitrary: k st)
  case Nil
  then show ?case by simp
next
  case (Cons j js)
  show ?case
  proof (cases "over_threshold env st j")
    case True
    then obtain t where t: "thread (monitored st ! j) = Some t"
      and p: "STACK_WARNING_THRESHOLD < debug_get_stack_percent env (Some t)"
      by (auto simp add: over_threshold_def)
    have step: "check_thread env j (k, st) =
        (k + 1, st\<lparr>total_stack_warnings := total_stack_warnings st + 1\<rparr>)"
      using t p by (simp add: check_thread_def)
    have same: "over_threshold env (st\<lparr>total_stack_warnings := total_stack_warnings st + 1\<rparr>) =
        over_threshold env st"
      by (rule ext) (simp add: over_threshold_def)
    show ?thesis using True by (simp add: step Cons.IH same add.assoc)
  next
    case False
    then have step: "check_thread env j (k, st) = (k, st)"
      by (cases "thread (monitored st ! j)") (auto simp add: check_thread_def over_threshold_def)
    show ?thesis using False by (simp add: step Cons.IH)
  qed
qed

lemma check_state:
  "monitor_initialized st \<Longrightarrow>
   snd (debug_monitor_check env st) =
     st\<lparr>total_stack_warnings := total_stack_warnings st +
          of_nat (length (filter (over_threshold env st) [0..<nat (monitored_count st)]))\<rparr>"
  by (simp add: debug_monitor_check_def check_thread_fold)

lemma probe_entry_off: "\<not> CONFIG_THREAD_STACK_INFO env \<Longrightarrow> probe_entry env m = m"
  by (simp add: probe_entry_def split: option.split)

lemma probe_all_off:
  "\<not> CONFIG_THREAD_STACK_INFO env \<Longrightarrow>
   fold (\<lambda>i xs. xs[i := probe_entry env (xs ! i)]) js ms = ms"
  by (induction js arbitrary: ms) (simp_all add: probe_entry_off)

lemma probe_entry_skipped:
  "thread m = None \<Longrightarrow> probe_entry env m = m"
  "thread m = Some t \<Longrightarrow> fst (k_thread_stack_space_get env t) \<noteq> 0 \<Longrightarrow> probe_entry env m = m"
  by (simp_all add: probe_entry_def)

lemma cpu_usage_last:
  "last_check_time (snd (cpu_usage env p)) =
     (if CONFIG_SCHED_THREAD_USAGE env \<and> fst (k_thread_runtime_stats_get env) = 0
      then k_uptime_now env else last_check_time (snd p))"
  "last_cpu_cycles (snd (cpu_usage env p)) =
     (if CONFIG_SCHED_THREAD_USAGE env \<and> fst (k_thread_runtime_stats_get env) = 0
      then snd (k_thread_runtime_stats_get env) else last_cpu_cycles (snd p))"
  by (simp_all add: cpu_usage_def split_def Let_def)

lemma get_stats_last:
  "last_check_time (snd (snd (debug_monitor_get_stats env (Some s0) st))) =
     (if CONFIG_SCHED_THREAD_USAGE env \<and> fst (k_thread_runtime_stats_get env) = 0
      then k_uptime_now env else last_check_time st)"
  "last_cpu_cycles (snd (snd (debug_monitor_get_stats env (Some s0) st))) =
     (if CONFIG_SCHED_THREAD_USAGE env \<and> fst (k_thread_runtime_stats_get env) = 0
      then snd (k_thread_runtime_stats_get env) else last_cpu_cycles st)"
  by (simp_all add: debug_monitor_get_stats_def Let_def split_def cpu_usage_last
      fold_probe_state')

lemma over_threshold_Some:
  "thread (monitored st ! i) = Some t \<Longrightarrow>
   over_threshold env st i =
     (CONFIG_THREAD_STACK_INFO env \<and> fst (k_thread_stack_space_get env t) = 0 \<and>
      stack_info_size env t \<noteq> 0 \<and>
      80 < sint ((stack_usage env t * 100) div stack_info_size env t))"
  by (simp add: over_threshold_def debug_get_stack_percent_def stack_usage_def
      STACK_WARNING_THRESHOLD_def split_def Let_def)

lemma over_threshold_None:
  "thread (monitored st ! i) = None \<Longrightarrow> \<not> over_threshold env st i"
  by (simp add: over_threshold_def)

lemma register_keeps_registered:
  "i < nat (monitored_count st) \<Longrightarrow>
   monitored (snd (debug_monitor_register_thread thr nm st)) ! i = monitored st ! i"
  by (cases thr; cases nm) (simp_all add: debug_monitor_register_thread_def)

lemma register_new_peak:
  "fst (debug_monitor_register_thread thr nm st) = 0 \<Longrightarrow>
   nat (monitored_count st) < length (monitored st) \<Longrightarrow>
   peak_usage (monitored (snd (debug_monitor_register_thread thr nm st)) !
     nat (monitored_count st)) = 0"
  by (cases thr; cases nm)
    (simp_all add: debug_monitor_register_thread_def EINVAL_def ENOSPC_def split: if_splits)


subsection \<open>The snapshot's effect on the monitor\<close>

text \<open>
  Claim C4 fails on the code: \<open>debug_monitor_get_stats\<close> itself tracks the peak. With
  the inference thread registered and a recorded peak of 0, a snapshot taken while the thread
  uses 3800 bytes stores 3800 in its \<open>peak_usage\<close>.
\<close>

theorem get_stats_updates_peak_counterexample:
  "peak_usage (monitored two_threads ! 0) = 0 \<and>
   peak_usage (monitored
     (snd (snd (debug_monitor_get_stats env_ml_high (Some zero_stats) two_threads))) ! 0) =
     3800"
  by code_simp

text \<open>
  Claim C4, as amended. \<open>debug_monitor_get_stats\<close> leaves the number of registered
  contexts, the warning counter, the initialisation flag, the length of the table and,
  in every record, the thread, the name and the stack size unchanged, and with a
  \<open>NULL\<close> argument it changes nothing. It does write \<open>peak_usage\<close>: for a registered
  record with a thread, when stack information is configured and the stack read
  succeeds, the peak becomes the maximum of its old value and the usage read. Every
  other record (beyond the registered ones, without a thread, or with a failed read)
  is unchanged, as is the whole table when stack information is not configured; no
  peak is lowered. When thread usage accounting is configured and the runtime
  statistics are read successfully, it sets \<open>last_check_time\<close> to the uptime read and
  \<open>last_cpu_cycles\<close> to the execution cycles reported; when the accounting is not
  configured or that read fails, it leaves both unchanged.
\<close>

theorem get_stats_frame:
  "monitored_count (snd (snd (debug_monitor_get_stats env stats st))) = monitored_count st \<and>
   total_stack_warnings (snd (snd (debug_monitor_get_stats env stats st))) =
     total_stack_warnings st \<and>
   monitor_initialized (snd (snd (debug_monitor_get_stats env stats st))) =
     monitor_initialized st \<and>
   length (monitored (snd (snd (debug_monitor_get_stats env stats st)))) =
     length (monitored st) \<and>
   (i < length (monitored st) \<longrightarrow>
      thread (monitored (snd (snd (debug_monitor_get_stats env stats st))) ! i) =
        thread (monitored st ! i) \<and>
      name (monitored (snd (snd (debug_monitor_get_stats env stats st))) ! i) =
        name (monitored st ! i) \<and>
      thread_stack_size (monitored (snd (snd (debug_monitor_get_stats env stats st))) ! i) =
        thread_stack_size (monitored st ! i) \<and>
      peak_usage (monitored st ! i) \<le>
        peak_usage (monitored (snd (snd (debug_monitor_get_stats env stats st))) ! i)) \<and>
   (stats \<noteq> None \<and> i < nat (monitored_count st) \<and> i < length (monitored st) \<and>
    thread (monitored st ! i) = Some t \<and> CONFIG_THREAD_STACK_INFO env \<and>
    fst (k_thread_stack_space_get env t) = 0 \<longrightarrow>
      peak_usage (monitored (snd (snd (debug_monitor_get_stats env stats st))) ! i) =
        max (peak_usage (monitored st ! i)) (stack_usage env t)) \<and>
   (i < length (monitored st) \<and>
    (nat (monitored_count st) \<le> i \<or> thread (monitored st ! i) = None \<or>
     thread (monitored st ! i) = Some t \<and> fst (k_thread_stack_space_get env t) \<noteq> 0) \<longrightarrow>
      monitored (snd (snd (debug_monitor_get_stats env stats st))) ! i = monitored st ! i) \<and>
   (\<not> CONFIG_THREAD_STACK_INFO env \<longrightarrow>
      monitored (snd (snd (debug_monitor_get_stats env stats st))) = monitored st) \<and>
   (stats \<noteq> None \<and> CONFIG_SCHED_THREAD_USAGE env \<and>
    fst (k_thread_runtime_stats_get env) = 0 \<longrightarrow>
      last_check_time (snd (snd (debug_monitor_get_stats env stats st))) =
        k_uptime_now env \<and>
      last_cpu_cycles (snd (snd (debug_monitor_get_stats env stats st))) =
        snd (k_thread_runtime_stats_get env)) \<and>
   (\<not> CONFIG_SCHED_THREAD_USAGE env \<or> fst (k_thread_runtime_stats_get env) \<noteq> 0 \<longrightarrow>
      last_check_time (snd (snd (debug_monitor_get_stats env stats st))) =
        last_check_time st \<and>
      last_cpu_cycles (snd (snd (debug_monitor_get_stats env stats st))) =
        last_cpu_cycles st) \<and>
   (stats = None \<longrightarrow> snd (snd (debug_monitor_get_stats env stats st)) = st)"
proof (cases stats)
  case None
  then show ?thesis by (simp add: get_stats_None)
next
  case (Some s0)
  let ?st' = "snd (snd (debug_monitor_get_stats env (Some s0) st))"
  let ?n = "nat (monitored_count st)"
  note pa = probe_all_nth [of env ?n "monitored st"]
  have m: "monitored ?st' =
      fold (\<lambda>i xs. xs[i := probe_entry env (xs ! i)]) [0..<?n] (monitored st)"
    by (rule get_stats_Some)
  have len: "length (monitored ?st') = length (monitored st)"
    using pa by (simp only: m)
  have nth: "monitored ?st' ! i =
      (if i < ?n then probe_entry env (monitored st ! i) else monitored st ! i)"
    if "i < length (monitored st)"
    using pa that by (simp only: m)
  have ent: "i < length (monitored st) \<longrightarrow>
      thread (monitored ?st' ! i) = thread (monitored st ! i) \<and>
      name (monitored ?st' ! i) = name (monitored st ! i) \<and>
      thread_stack_size (monitored ?st' ! i) = thread_stack_size (monitored st ! i) \<and>
      peak_usage (monitored st ! i) \<le> peak_usage (monitored ?st' ! i)"
    using nth by (simp add: probe_entry_frame)
  have pk: "i < ?n \<and> i < length (monitored st) \<and>
    thread (monitored st ! i) = Some t \<and> CONFIG_THREAD_STACK_INFO env \<and>
    fst (k_thread_stack_space_get env t) = 0 \<longrightarrow>
      peak_usage (monitored ?st' ! i) = max (peak_usage (monitored st ! i)) (stack_usage env t)"
    using nth by (simp add: probe_entry_peak)
  have same: "i < length (monitored st) \<and>
    (?n \<le> i \<or> thread (monitored st ! i) = None \<or>
     thread (monitored st ! i) = Some t \<and> fst (k_thread_stack_space_get env t) \<noteq> 0) \<longrightarrow>
      monitored ?st' ! i = monitored st ! i"
    using nth by (auto simp add: probe_entry_skipped)
  have off: "\<not> CONFIG_THREAD_STACK_INFO env \<longrightarrow> monitored ?st' = monitored st"
    by (simp add: m probe_all_off)
  have on: "CONFIG_SCHED_THREAD_USAGE env \<and> fst (k_thread_runtime_stats_get env) = 0 \<longrightarrow>
      last_check_time ?st' = k_uptime_now env \<and>
      last_cpu_cycles ?st' = snd (k_thread_runtime_stats_get env)"
    by (simp add: get_stats_last)
  have usage: "\<not> CONFIG_SCHED_THREAD_USAGE env \<or> fst (k_thread_runtime_stats_get env) \<noteq> 0 \<longrightarrow>
      last_check_time ?st' = last_check_time st \<and> last_cpu_cycles ?st' = last_cpu_cycles st"
    by (auto simp add: get_stats_last)
  have fr: "monitored_count ?st' = monitored_count st"
    "total_stack_warnings ?st' = total_stack_warnings st"
    "monitor_initialized ?st' = monitor_initialized st"
    by (simp_all add: get_stats_Some)
  from fr len ent pk same off on usage show ?thesis
    unfolding Some by blast
qed

text \<open>
  The theorem on the scenario with two registered threads, for the inference thread's
  record: without usage accounting the snapshot raises the peak to 3800 and leaves
  \<open>last_check_time\<close> at 5000; with usage accounting it also stores the uptime 6000 and
  the 123456 cycles.
\<close>

theorem get_stats_frame_witness:
  "(0 :: nat) < length (monitored two_threads) \<and>
   (0 :: nat) < nat (monitored_count two_threads) \<and>
   thread (monitored two_threads ! 0) = Some 1 \<and>
   CONFIG_THREAD_STACK_INFO env_ml_high \<and>
   fst (k_thread_stack_space_get env_ml_high 1) = 0 \<and>
   \<not> CONFIG_SCHED_THREAD_USAGE env_ml_high \<and>
   CONFIG_SCHED_THREAD_USAGE env_usage_on \<and>
   fst (k_thread_runtime_stats_get env_usage_on) = 0 \<and>
   monitored_count
     (snd (snd (debug_monitor_get_stats env_ml_high (Some zero_stats) two_threads))) = 2 \<and>
   total_stack_warnings
     (snd (snd (debug_monitor_get_stats env_ml_high (Some zero_stats) two_threads))) = 0 \<and>
   name (monitored
     (snd (snd (debug_monitor_get_stats env_ml_high (Some zero_stats) two_threads))) ! 0) =
     ''ml_thread'' \<and>
   peak_usage (monitored
     (snd (snd (debug_monitor_get_stats env_ml_high (Some zero_stats) two_threads))) ! 0) =
     3800 \<and>
   last_check_time
     (snd (snd (debug_monitor_get_stats env_ml_high (Some zero_stats) two_threads))) = 5000 \<and>
   last_check_time
     (snd (snd (debug_monitor_get_stats env_usage_on (Some zero_stats) two_threads))) = 6000 \<and>
   last_cpu_cycles
     (snd (snd (debug_monitor_get_stats env_usage_on (Some zero_stats) two_threads))) = 123456"
proof -
  have h: "(0 :: nat) < length (monitored two_threads)"
    "(0 :: nat) < nat (monitored_count two_threads)"
    "thread (monitored two_threads ! 0) = Some 1"
    "CONFIG_THREAD_STACK_INFO env_ml_high"
    "fst (k_thread_stack_space_get env_ml_high 1) = 0"
    "\<not> CONFIG_SCHED_THREAD_USAGE env_ml_high"
    "CONFIG_SCHED_THREAD_USAGE env_usage_on"
    "fst (k_thread_runtime_stats_get env_usage_on) = 0"
    by code_simp+
  have v: "monitored_count two_threads = 2" "total_stack_warnings two_threads = 0"
    "name (monitored two_threads ! 0) = ''ml_thread''" "last_check_time two_threads = 5000"
    "max (peak_usage (monitored two_threads ! 0)) (stack_usage env_ml_high 1) = 3800"
    "k_uptime_now env_usage_on = 6000" "snd (k_thread_runtime_stats_get env_usage_on) = 123456"
    by code_simp+
  note t1 = get_stats_frame
    [where env = env_ml_high and stats = "Some zero_stats" and st = two_threads
       and i = 0 and t = 1]
  note t2 = get_stats_frame
    [where env = env_usage_on and stats = "Some zero_stats" and st = two_threads
       and i = 0 and t = 1]
  from t1 h have a: "monitored_count
      (snd (snd (debug_monitor_get_stats env_ml_high (Some zero_stats) two_threads))) = 2"
    "total_stack_warnings
      (snd (snd (debug_monitor_get_stats env_ml_high (Some zero_stats) two_threads))) = 0"
    "name (monitored
      (snd (snd (debug_monitor_get_stats env_ml_high (Some zero_stats) two_threads))) ! 0) =
      ''ml_thread''"
    "last_check_time
      (snd (snd (debug_monitor_get_stats env_ml_high (Some zero_stats) two_threads))) = 5000"
    by (simp_all add: v)
  from t1 h have "peak_usage (monitored
      (snd (snd (debug_monitor_get_stats env_ml_high (Some zero_stats) two_threads))) ! 0) =
      max (peak_usage (monitored two_threads ! 0)) (stack_usage env_ml_high 1)"
    by blast
  then have b: "peak_usage (monitored
      (snd (snd (debug_monitor_get_stats env_ml_high (Some zero_stats) two_threads))) ! 0) =
      3800"
    by (simp only: v)
  from t2 h have c: "last_check_time
      (snd (snd (debug_monitor_get_stats env_usage_on (Some zero_stats) two_threads))) = 6000"
    "last_cpu_cycles
      (snd (snd (debug_monitor_get_stats env_usage_on (Some zero_stats) two_threads))) =
      123456"
    by (simp_all add: v)
  from h a b c show ?thesis by blast
qed

subsection \<open>Warnings and peaks\<close>

text \<open>
  Claim C3 fails on the code: the monitor has no per-context state. In the scenario,
  a check finds the inference thread (entry 0) above the threshold, then its usage drops and
  a second check and a snapshot follow. The same is done with the sensor thread above
  the threshold instead, the inference thread never. The snapshots, and the monitor's states,
  are identical in both runs: a snapshot reports the total of warnings, not which
  context was warned. And the peak recorded for the inference thread in the first run is
  1000 bytes, although a check had read 3800.
\<close>

theorem warned_state_not_reported_counterexample:
  "over_threshold env_ml_high two_threads 0 \<and>
   \<not> over_threshold env_sensor_high two_threads 0 \<and>
   debug_monitor_get_stats env_low (Some zero_stats)
     (snd (debug_monitor_check env_low (snd (debug_monitor_check env_ml_high two_threads)))) =
   debug_monitor_get_stats env_low (Some zero_stats)
     (snd (debug_monitor_check env_low
        (snd (debug_monitor_check env_sensor_high two_threads)))) \<and>
   stack_usage env_ml_high 1 = 3800 \<and>
   peak_usage (monitored (snd (debug_monitor_check env_ml_high two_threads)) ! 0) = 0 \<and>
   peak_usage (monitored (snd (snd (debug_monitor_get_stats env_low (Some zero_stats)
     (snd (debug_monitor_check env_low
        (snd (debug_monitor_check env_ml_high two_threads))))))) ! 0) = 1000"
  by code_simp

text \<open>
  Claim C3, as amended. The monitor keeps no Healthy or Warned state for a context.
  One \<open>debug_monitor_check\<close> of an initialised monitor adds to the single counter
  \<open>total_stack_warnings\<close> one (modulo \<open>2^32\<close>) for every registered context with a thread
  whose stack percentage is then greater than 80, and changes nothing else, so no
  record and no peak; on a monitor that is not initialised it returns \<open>-EINVAL\<close> and
  changes nothing. The percentage is the one \<open>debug_get_stack_percent\<close> computes: the
  integer quotient of 100 times the bytes used by the stack size in 32-bit arithmetic,
  and no warning when stack information is not configured, the stack read fails or
  the size is 0. \<open>debug_monitor_get_stats\<close> leaves the counter unchanged and reports its
  value in \<open>stack_warnings\<close>, whatever the usage is by then. A context's \<open>peak_usage\<close> is
  0 when \<open>debug_monitor_register_thread\<close> has registered it; a later registration
  leaves the records of the registered contexts alone, as a check does;
  \<open>debug_monitor_get_stats\<close> never lowers a peak and sets it, when the stack read
  succeeds, to the maximum of its old value and the usage read in that call.
\<close>

theorem monitor_warning_counter_and_peak:
  "(monitor_initialized st \<longrightarrow>
      snd (debug_monitor_check env st) =
        st\<lparr>total_stack_warnings := total_stack_warnings st +
             of_nat (length (filter (over_threshold env st)
               [0..<nat (monitored_count st)]))\<rparr>) \<and>
   (\<not> monitor_initialized st \<longrightarrow> debug_monitor_check env st = (- EINVAL, st)) \<and>
   (thread (monitored st ! i) = Some t \<longrightarrow>
      over_threshold env st i =
        (CONFIG_THREAD_STACK_INFO env \<and> fst (k_thread_stack_space_get env t) = 0 \<and>
         stack_info_size env t \<noteq> 0 \<and>
         80 < sint ((stack_usage env t * 100) div stack_info_size env t))) \<and>
   (thread (monitored st ! i) = None \<longrightarrow> \<not> over_threshold env st i) \<and>
   map_option stack_warnings (fst (snd (debug_monitor_get_stats env (Some s0) st))) =
     Some (total_stack_warnings st) \<and>
   total_stack_warnings (snd (snd (debug_monitor_get_stats env (Some s0) st))) =
     total_stack_warnings st \<and>
   (i < length (monitored st) \<longrightarrow>
      peak_usage (monitored st ! i) \<le>
        peak_usage (monitored (snd (snd (debug_monitor_get_stats env (Some s0) st))) ! i)) \<and>
   (i < nat (monitored_count st) \<and> i < length (monitored st) \<and>
    thread (monitored st ! i) = Some t \<and> CONFIG_THREAD_STACK_INFO env \<and>
    fst (k_thread_stack_space_get env t) = 0 \<longrightarrow>
      peak_usage (monitored (snd (snd (debug_monitor_get_stats env (Some s0) st))) ! i) =
        max (peak_usage (monitored st ! i)) (stack_usage env t)) \<and>
   (i < nat (monitored_count st) \<longrightarrow>
      monitored (snd (debug_monitor_register_thread thr nm st)) ! i = monitored st ! i) \<and>
   (fst (debug_monitor_register_thread thr nm st) = 0 \<and>
    nat (monitored_count st) < length (monitored st) \<longrightarrow>
      peak_usage (monitored (snd (debug_monitor_register_thread thr nm st)) !
        nat (monitored_count st)) = 0)"
proof -
  let ?st' = "snd (snd (debug_monitor_get_stats env (Some s0) st))"
  let ?n = "nat (monitored_count st)"
  note pa = probe_all_nth [of env ?n "monitored st"]
  have m: "monitored ?st' =
      fold (\<lambda>i xs. xs[i := probe_entry env (xs ! i)]) [0..<?n] (monitored st)"
    by (rule get_stats_Some)
  have nth: "monitored ?st' ! i =
      (if i < ?n then probe_entry env (monitored st ! i) else monitored st ! i)"
    if "i < length (monitored st)"
    using pa that by (simp only: m)
  have a: "monitor_initialized st \<longrightarrow>
      snd (debug_monitor_check env st) =
        st\<lparr>total_stack_warnings := total_stack_warnings st +
             of_nat (length (filter (over_threshold env st) [0..<?n]))\<rparr>"
    by (simp add: check_state)
  have b: "\<not> monitor_initialized st \<longrightarrow> debug_monitor_check env st = (- EINVAL, st)"
    by (simp add: debug_monitor_check_def)
  have o1: "thread (monitored st ! i) = Some t \<longrightarrow>
      over_threshold env st i =
        (CONFIG_THREAD_STACK_INFO env \<and> fst (k_thread_stack_space_get env t) = 0 \<and>
         stack_info_size env t \<noteq> 0 \<and>
         80 < sint ((stack_usage env t * 100) div stack_info_size env t))"
    using over_threshold_Some [of st i t env] by blast
  have o2: "thread (monitored st ! i) = None \<longrightarrow> \<not> over_threshold env st i"
    using over_threshold_None [of st i env] by blast
  have w1: "map_option stack_warnings (fst (snd (debug_monitor_get_stats env (Some s0) st))) =
      Some (total_stack_warnings st)"
    and w2: "total_stack_warnings ?st' = total_stack_warnings st"
    by (rule get_stats_Some)+
  have c: "i < length (monitored st) \<longrightarrow>
      peak_usage (monitored st ! i) \<le> peak_usage (monitored ?st' ! i)"
    using nth by (simp add: probe_entry_frame)
  have d: "i < ?n \<and> i < length (monitored st) \<and>
    thread (monitored st ! i) = Some t \<and> CONFIG_THREAD_STACK_INFO env \<and>
    fst (k_thread_stack_space_get env t) = 0 \<longrightarrow>
      peak_usage (monitored ?st' ! i) = max (peak_usage (monitored st ! i)) (stack_usage env t)"
    using nth by (simp add: probe_entry_peak)
  have r1: "i < ?n \<longrightarrow>
      monitored (snd (debug_monitor_register_thread thr nm st)) ! i = monitored st ! i"
    using register_keeps_registered [of i st thr nm] by blast
  have r2: "fst (debug_monitor_register_thread thr nm st) = 0 \<and> ?n < length (monitored st) \<longrightarrow>
      peak_usage (monitored (snd (debug_monitor_register_thread thr nm st)) ! ?n) = 0"
    using register_new_peak [of thr nm st] by blast
  from a b o1 o2 w1 w2 c d r1 r2 show ?thesis by blast
qed

text \<open>
  The theorem on the scenario: the check with the inference thread at 92 percent
  counts one warning and leaves the table alone; a snapshot then records the peak
  3800. At 3300 of 4096 bytes the percentage is 80 and the thread is not over the
  threshold.
\<close>

theorem monitor_warning_counter_and_peak_witness:
  "monitor_initialized two_threads \<and>
   (0 :: nat) < nat (monitored_count two_threads) \<and>
   (0 :: nat) < length (monitored two_threads) \<and>
   thread (monitored two_threads ! 0) = Some 1 \<and>
   CONFIG_THREAD_STACK_INFO env_ml_high \<and>
   fst (k_thread_stack_space_get env_ml_high 1) = 0 \<and>
   total_stack_warnings (snd (debug_monitor_check env_ml_high two_threads)) = 1 \<and>
   monitored (snd (debug_monitor_check env_ml_high two_threads)) = monitored two_threads \<and>
   peak_usage (monitored
     (snd (snd (debug_monitor_get_stats env_ml_high (Some zero_stats) two_threads))) ! 0) =
     3800 \<and>
   stack_usage env_boundary 1 = 3300 \<and>
   \<not> over_threshold env_boundary two_threads 0 \<and>
   monitored (snd (debug_monitor_register_thread (Some 3) (Some ''output'') two_threads)) ! 0 =
     monitored two_threads ! 0"
proof -
  have h: "monitor_initialized two_threads" "(0 :: nat) < nat (monitored_count two_threads)"
    "(0 :: nat) < length (monitored two_threads)" "thread (monitored two_threads ! 0) = Some 1"
    "CONFIG_THREAD_STACK_INFO env_ml_high" "fst (k_thread_stack_space_get env_ml_high 1) = 0"
    by code_simp+
  have v: "length (filter (over_threshold env_ml_high two_threads)
      [0..<nat (monitored_count two_threads)]) = 1"
    "total_stack_warnings two_threads = 0"
    "max (peak_usage (monitored two_threads ! 0)) (stack_usage env_ml_high 1) = 3800"
    by code_simp+
  have bd: "stack_usage env_boundary 1 = 3300"
    "\<not> 80 < sint ((stack_usage env_boundary 1 * 100) div stack_info_size env_boundary 1)"
    by code_simp+
  note t = monitor_warning_counter_and_peak
    [where st = two_threads and env = env_ml_high and ?s0.0 = zero_stats and i = 0 and t = 1
       and thr = "Some 3" and nm = "Some ''output''"]
  note tb = monitor_warning_counter_and_peak
    [where st = two_threads and env = env_boundary and ?s0.0 = zero_stats and i = 0 and t = 1
       and thr = "Some 3" and nm = "Some ''output''"]
  from t h have c: "snd (debug_monitor_check env_ml_high two_threads) =
      two_threads\<lparr>total_stack_warnings := total_stack_warnings two_threads +
        of_nat (length (filter (over_threshold env_ml_high two_threads)
          [0..<nat (monitored_count two_threads)]))\<rparr>"
    by blast
  have c1: "total_stack_warnings (snd (debug_monitor_check env_ml_high two_threads)) = 1"
    by (simp add: c v)
  have c2: "monitored (snd (debug_monitor_check env_ml_high two_threads)) =
      monitored two_threads"
    by (simp add: c)
  from t h have "peak_usage (monitored
     (snd (snd (debug_monitor_get_stats env_ml_high (Some zero_stats) two_threads))) ! 0) =
     max (peak_usage (monitored two_threads ! 0)) (stack_usage env_ml_high 1)"
    by blast
  then have p: "peak_usage (monitored
     (snd (snd (debug_monitor_get_stats env_ml_high (Some zero_stats) two_threads))) ! 0) =
     3800"
    by (simp only: v)
  from tb h bd have nb: "\<not> over_threshold env_boundary two_threads 0" by blast
  from t h have rg: "monitored
      (snd (debug_monitor_register_thread (Some 3) (Some ''output'') two_threads)) ! 0 =
      monitored two_threads ! 0"
    by blast
  from h c1 c2 p bd(1) nb rg show ?thesis by blast
qed


section \<open>Properties of the synchronization gate\<close>

lemma give_saturates: "0 < n \<Longrightarrow> (k_sem_give ^^ n) ml_sem = \<lparr>sem_count = 1, sem_limit = 1\<rparr>"
proof (induction n)
  case 0
  then show ?case by simp
next
  case (Suc n)
  show ?case
  proof (cases "n = 0")
    case True
    then show ?thesis by (simp add: k_sem_give_def ml_sem_def)
  next
    case False
    with Suc show ?thesis by (simp add: k_sem_give_def)
  qed
qed

text \<open>
  Claim C5. For every \<open>N \<ge> 1\<close>, \<open>N\<close> gives on \<open>ml_sem\<close> with no take in between leave
  exactly one pending wake (the count is 1): the next take returns \<open>Signaled\<close>, and a
  further take with no new give times out and leaves the semaphore empty.
\<close>

theorem gate_coalesces:
  assumes "1 \<le> N"
  shows "sem_count ((k_sem_give ^^ N) ml_sem) = 1 \<and>
         fst (k_sem_take ((k_sem_give ^^ N) ml_sem)) = Signaled \<and>
         k_sem_take (snd (k_sem_take ((k_sem_give ^^ N) ml_sem))) =
           (TimedOut, \<lparr>sem_count = 0, sem_limit = 1\<rparr>)"
proof -
  from assms have "(k_sem_give ^^ N) ml_sem = \<lparr>sem_count = 1, sem_limit = 1\<rparr>"
    by (intro give_saturates) simp
  then show ?thesis by (simp add: k_sem_take_def)
qed

text \<open>The theorem for a burst of three gives.\<close>

theorem gate_coalesces_witness:
  "(1 :: nat) \<le> 3 \<and>
   fst (k_sem_take (k_sem_give (k_sem_give (k_sem_give ml_sem)))) = Signaled \<and>
   fst (k_sem_take (snd (k_sem_take (k_sem_give (k_sem_give (k_sem_give ml_sem)))))) =
     TimedOut"
proof -
  have n: "(1 :: nat) \<le> 3" by simp
  have e: "(k_sem_give ^^ 3) ml_sem = k_sem_give (k_sem_give (k_sem_give ml_sem))"
    by (simp add: numeral_3_eq_3)
  from gate_coalesces [OF n, unfolded e] n show ?thesis by simp
qed

text \<open>
  Where the bursts come from: while a window is pending, every iteration of the
  sampling loop gives the gate again.
\<close>

lemma sensor_iteration_gives:
  "initialized st \<Longrightarrow> window_ready st \<Longrightarrow>
   snd (sensor_iteration s (st, sem)) = k_sem_give sem"
  by (simp add: sensor_iteration_def preprocessing_window_ready_def
      preprocessing_add_sample_def Let_def)


end
